theory Spec2Isabelle
  imports Complex_Main
begin

section \<open>Data model of \<^verbatim>\<open>myfeeds/main.py\<close>\<close>

text \<open>
  The feeder polls three sources. Every poll loop is one coroutine of class \<^verbatim>\<open>Feeder\<close>
  (\<^verbatim>\<open>weibo_task\<close>, \<^verbatim>\<open>bilibili_task\<close>, \<^verbatim>\<open>youku_task\<close>); the labels passed to
  \<^verbatim>\<open>push\<close> and \<^verbatim>\<open>reportable_sleep\<close> are written here as the source they name.
\<close>

datatype source = Weibo | Bilibili | Youku

text \<open>
  Exceptions are values. \<open>TransportError\<close> and \<open>HTTPStatusError\<close> are what
  \<^verbatim>\<open>Feeder.request\<close> raises (the client call, \<^verbatim>\<open>res.raise_for_status()\<close>); \<open>KeyError\<close> and
  \<open>ValueError\<close> come from subscripting a payload and from \<^verbatim>\<open>strptime\<close>; \<open>TypeError\<close> is
  what Python raises when a \<^verbatim>\<open>for\<close> loop iterates over \<^verbatim>\<open>None\<close>.
\<close>

datatype error = TransportError | HTTPStatusError | KeyError | ValueError | TypeError

text \<open>
  The parsed dictionaries, one record per source, with the keys of the source prefixed by
  the record they belong to (\<^verbatim>\<open>"timestamp"\<close> is \<open>ws_timestamp\<close> and \<open>bs_timestamp\<close>,
  \<^verbatim>\<open>"title"\<close> is \<open>bs_title\<close> and \<open>yv_title\<close>). Timestamps are POSIX seconds; only their
  order is used, so they are real numbers.
\<close>

record weibo_status =
  ws_timestamp :: real
  ws_text :: string
  ws_screen_name :: string
  ws_comments_count :: int
  ws_attitudes_count :: int
  ws_link :: string

record bilibili_submission =
  bs_title :: string
  bs_timestamp :: real
  bs_length :: string
  bs_author :: string
  bs_link :: string

record youku_video =
  yv_title :: string
  yv_link :: string
  yv_pub_time_des :: string
  yv_length :: string

text \<open>
  The three module-level context variables. One value of this record is one
  \<^verbatim>\<open>contextvars.Context\<close>; \<^verbatim>\<open>marker.get()\<close> reads a field, \<^verbatim>\<open>marker.set(v)\<close> updates it.
  Lines 17 to 19 set all three to \<^verbatim>\<open>None\<close> when the module is loaded.
\<close>

record py_context =
  youku_marker :: "string option"
  weibo_marker :: "real option"
  bilibili_marker :: "real option"

definition init_context :: py_context where
  "init_context = \<lparr>youku_marker = None, weibo_marker = None, bilibili_marker = None\<rparr>"

text \<open>
  What a loop does to the outside: the notifications the push endpoint accepted and the
  records written to the logger \<^verbatim>\<open>feeder\<close> (the debug lines of \<^verbatim>\<open>request\<close> are left out).
\<close>

datatype log_entry =
  LogException error
  | LogPush source string
  | LogStandby source nat

record world =
  pushed :: "(source \<times> string) list"
  logged :: "log_entry list"

definition init_world :: world where
  "init_world = \<lparr>pushed = [], logged = []\<rparr>"

text \<open>
  What the environment contributes to one cycle of a loop: the outcome of the body of the
  \<^verbatim>\<open>try\<close> in \<^verbatim>\<open>fetch_*\<close> (the request and the extraction of the item list from its
  response), the reading of \<^verbatim>\<open>datetime.now().timestamp()\<close>, and the outcome of the POST
  of \<^verbatim>\<open>push\<close> (\<open>None\<close>: \<^verbatim>\<open>request\<close> returned; \<open>Some e\<close>: it raised \<open>e\<close>).
\<close>

record 'r cycle_input =
  fetched :: "error + 'r list"
  now :: real
  posted :: "error option"

section \<open>Fetching and parsing\<close>

text \<open>
  \<^verbatim>\<open>fetch_weibo_statuses\<close>, \<^verbatim>\<open>fetch_bilibili_upunuxi_submissions\<close>: any exception of the
  body is logged and the function falls off its end, which returns \<^verbatim>\<open>None\<close>.
\<close>

definition fetch_weibo_statuses :: "(error + 'r list) \<Rightarrow> world \<Rightarrow> 'r list option \<times> world" where
  "fetch_weibo_statuses response w =
     (case response of
        Inr statuses \<Rightarrow> (Some statuses, w)
      | Inl e \<Rightarrow> (None, w\<lparr>logged := logged w @ [LogException e]\<rparr>))"

definition fetch_bilibili_upunuxi_submissions ::
  "(error + 'r list) \<Rightarrow> world \<Rightarrow> 'r list option \<times> world" where
  "fetch_bilibili_upunuxi_submissions response w =
     (case response of
        Inr vlist \<Rightarrow> (Some vlist, w)
      | Inl e \<Rightarrow> (None, w\<lparr>logged := logged w @ [LogException e]\<rparr>))"

text \<open>\<^verbatim>\<open>fetch_youku_videos\<close> returns \<^verbatim>\<open>videos[:5]\<close>.\<close>

definition fetch_youku_videos :: "(error + 'r list) \<Rightarrow> world \<Rightarrow> 'r list option \<times> world" where
  "fetch_youku_videos response w =
     (case response of
        Inr videos \<Rightarrow> (Some (take 5 videos), w)
      | Inl e \<Rightarrow> (None, w\<lparr>logged := logged w @ [LogException e]\<rparr>))"

text \<open>
  The loops \<^verbatim>\<open>for x in xs: parsed.append(self.parse_*(x))\<close> of the three tasks. The parser
  of a source is a parameter \<open>parse\<close>; it may raise, and the first exception leaves the loop.
\<close>

fun parse_each :: "('r \<Rightarrow> error + 'a) \<Rightarrow> 'r list \<Rightarrow> error + 'a list" where
  "parse_each parse [] = Inr []"
| "parse_each parse (r # rs) =
     (case parse r of
        Inl e \<Rightarrow> Inl e
      | Inr x \<Rightarrow> (case parse_each parse rs of Inl e \<Rightarrow> Inl e | Inr xs \<Rightarrow> Inr (x # xs)))"

section \<open>The dedup policies\<close>

text \<open>
  \<^verbatim>\<open>sorted(xs, key=f, reverse=True)\<close>: descending by key, and stable, so items with equal
  keys keep the order they had in \<open>xs\<close>. \<open>sort_key\<close> is the stable ascending sort.
\<close>

definition sorted_reverse :: "('a \<Rightarrow> real) \<Rightarrow> 'a list \<Rightarrow> 'a list" where
  "sorted_reverse f xs = rev (sort_key f (rev xs))"

text \<open>
  Lines 66 to 71 of \<^verbatim>\<open>prepare_weibo_feed\<close>: the list that is handed to the template, the
  new items of the cycle.
\<close>

definition weibo_new_statuses :: "real option \<Rightarrow> weibo_status list \<Rightarrow> weibo_status list" where
  "weibo_new_statuses marker statuses =
     (let statuses = sorted_reverse ws_timestamp statuses
      in case marker of
           None \<Rightarrow> take 1 statuses
         | Some m \<Rightarrow> filter (\<lambda>s. ws_timestamp s > m) statuses)"

text \<open>
  \<^verbatim>\<open>prepare_weibo_feed\<close>. The template \<^verbatim>\<open>weibo_statuses.md\<close> is the parameter \<open>render\<close>,
  the clock reading is \<open>t\<close>; the result is the feed and the context after the call.
\<close>

definition prepare_weibo_feed ::
  "(weibo_status list \<Rightarrow> string) \<Rightarrow> real \<Rightarrow> weibo_status list \<Rightarrow> py_context \<Rightarrow> string \<times> py_context" where
  "prepare_weibo_feed render t statuses ctx =
     (if length statuses = 0 then ('''', ctx)
      else
        let new_statuses = weibo_new_statuses (weibo_marker ctx) statuses;
            ctx' = ctx\<lparr>weibo_marker := Some t\<rparr>
        in (render new_statuses, ctx'))"

text \<open>Lines 110 to 115 of \<^verbatim>\<open>prepare_bilibili_feed\<close>.\<close>

definition bilibili_new_submissions ::
  "real option \<Rightarrow> bilibili_submission list \<Rightarrow> bilibili_submission list" where
  "bilibili_new_submissions marker submissions =
     (let submissions = sorted_reverse bs_timestamp submissions
      in case marker of
           None \<Rightarrow> take 1 submissions
         | Some m \<Rightarrow> filter (\<lambda>s. bs_timestamp s > m) submissions)"

definition prepare_bilibili_feed ::
  "(bilibili_submission list \<Rightarrow> string) \<Rightarrow> real \<Rightarrow> bilibili_submission list \<Rightarrow> py_context
     \<Rightarrow> string \<times> py_context" where
  "prepare_bilibili_feed render t submissions ctx =
     (if length submissions = 0 then ('''', ctx)
      else
        let new_submissions = bilibili_new_submissions (bilibili_marker ctx) submissions;
            ctx' = ctx\<lparr>bilibili_marker := Some t\<rparr>
        in (render new_submissions, ctx'))"

text \<open>
  The scan of \<^verbatim>\<open>prepare_youku_feed\<close>:
  \<^verbatim>\<open>for v in targets: if v["title"] == marker: break; videos.append(v)\<close>.
\<close>

fun scan_videos :: "string \<Rightarrow> youku_video list \<Rightarrow> youku_video list" where
  "scan_videos marker [] = []"
| "scan_videos marker (v # targets) =
     (if yv_title v = marker then [] else v # scan_videos marker targets)"

text \<open>Lines 162 to 171: the new videos of the cycle.\<close>

definition youku_new_videos :: "string option \<Rightarrow> youku_video list \<Rightarrow> youku_video list" where
  "youku_new_videos marker videos =
     (case marker of
        None \<Rightarrow> take 1 videos
      | Some m \<Rightarrow> scan_videos m videos)"

text \<open>
  \<^verbatim>\<open>prepare_youku_feed\<close>; \<^verbatim>\<open>videos[0]\<close> is read only when \<^verbatim>\<open>videos\<close> is not empty.
\<close>

definition prepare_youku_feed ::
  "(youku_video list \<Rightarrow> string) \<Rightarrow> youku_video list \<Rightarrow> py_context \<Rightarrow> string \<times> py_context" where
  "prepare_youku_feed render videos ctx =
     (if length videos = 0 then ('''', ctx)
      else
        let new_videos = youku_new_videos (youku_marker ctx) videos;
            ctx' = (case new_videos of
                      [] \<Rightarrow> ctx
                    | v # _ \<Rightarrow> ctx\<lparr>youku_marker := Some (yv_title v)\<rparr>)
        in (render new_videos, ctx'))"

section \<open>Pushing, sleeping and the poll loops\<close>

text \<open>
  \<^verbatim>\<open>push\<close>: nothing happens for an empty feed; otherwise the POST is awaited, and an
  exception of \<^verbatim>\<open>request\<close> is not handled here, so it leaves \<^verbatim>\<open>push\<close>.
\<close>

definition push :: "error option \<Rightarrow> string \<Rightarrow> source \<Rightarrow> world \<Rightarrow> error + world" where
  "push post feed src w =
     (if feed = [] then Inr w
      else (case post of
              Some e \<Rightarrow> Inl e
            | None \<Rightarrow> Inr (w\<lparr>pushed := pushed w @ [(src, feed)],
                             logged := logged w @ [LogPush src feed]\<rparr>)))"

text \<open>
  \<^verbatim>\<open>reportable_sleep(seconds, name)\<close>: one tick per second, a log record at every tick
  \<open>i\<close> with \<open>i mod 60 = 0\<close> that tells the minutes left.
\<close>

definition reportable_sleep :: "nat \<Rightarrow> source \<Rightarrow> world \<Rightarrow> world" where
  "reportable_sleep seconds name w =
     w\<lparr>logged := logged w
          @ map (\<lambda>i. LogStandby name ((seconds - i) div 60))
              (filter (\<lambda>i. i mod 60 = 0) [0..<seconds])\<rparr>"

text \<open>
  One iteration of the \<^verbatim>\<open>while True\<close> of \<^verbatim>\<open>weibo_task\<close>. The result \<open>Inl e\<close> says that
  the exception \<open>e\<close> left the loop body, and with it the loop and the task, since the
  loop has no handler; \<open>Inr\<close> gives the context and the world at the end of the sleep, from
  where the next iteration starts. \<^verbatim>\<open>if statuses:\<close> is false for \<^verbatim>\<open>None\<close> and for the
  empty list.
\<close>

definition weibo_cycle ::
  "('r \<Rightarrow> error + weibo_status) \<Rightarrow> (weibo_status list \<Rightarrow> string) \<Rightarrow> 'r cycle_input
     \<Rightarrow> py_context \<times> world \<Rightarrow> error + py_context \<times> world" where
  "weibo_cycle parse render inp s =
     (case s of (ctx, w) \<Rightarrow>
       (case fetch_weibo_statuses (fetched inp) w of (statuses, w1) \<Rightarrow>
         (case statuses of
            None \<Rightarrow> Inr (ctx, reportable_sleep (10 * 60) Weibo w1)
          | Some raw \<Rightarrow>
              if raw = [] then Inr (ctx, reportable_sleep (10 * 60) Weibo w1)
              else
                (case parse_each parse raw of
                   Inl e \<Rightarrow> Inl e
                 | Inr parsed_statuses \<Rightarrow>
                     (case prepare_weibo_feed render (now inp) parsed_statuses ctx of
                        (feed, ctx') \<Rightarrow>
                          (case push (posted inp) feed Weibo w1 of
                             Inl e \<Rightarrow> Inl e
                           | Inr w2 \<Rightarrow> Inr (ctx', reportable_sleep (10 * 60) Weibo w2)))))))"

text \<open>
  One iteration of \<^verbatim>\<open>bilibili_task\<close>. There is no test of the fetch result: the
  \<^verbatim>\<open>for\<close> loop iterates over it, and iterating over \<^verbatim>\<open>None\<close> raises \<^verbatim>\<open>TypeError\<close>.
\<close>

definition bilibili_cycle ::
  "('r \<Rightarrow> error + bilibili_submission) \<Rightarrow> (bilibili_submission list \<Rightarrow> string)
     \<Rightarrow> 'r cycle_input \<Rightarrow> py_context \<times> world \<Rightarrow> error + py_context \<times> world" where
  "bilibili_cycle parse render inp s =
     (case s of (ctx, w) \<Rightarrow>
       (case fetch_bilibili_upunuxi_submissions (fetched inp) w of (submissions, w1) \<Rightarrow>
         (case submissions of
            None \<Rightarrow> Inl TypeError
          | Some raw \<Rightarrow>
              (case parse_each parse raw of
                 Inl e \<Rightarrow> Inl e
               | Inr parsed_submissions \<Rightarrow>
                   (case prepare_bilibili_feed render (now inp) parsed_submissions ctx of
                      (feed, ctx') \<Rightarrow>
                        (case push (posted inp) feed Bilibili w1 of
                           Inl e \<Rightarrow> Inl e
                         | Inr w2 \<Rightarrow> Inr (ctx', reportable_sleep (10 * 60) Bilibili w2)))))))"

text \<open>One iteration of \<^verbatim>\<open>youku_task\<close>, written like \<^verbatim>\<open>bilibili_task\<close>.\<close>

definition youku_cycle ::
  "('r \<Rightarrow> error + youku_video) \<Rightarrow> (youku_video list \<Rightarrow> string) \<Rightarrow> 'r cycle_input
     \<Rightarrow> py_context \<times> world \<Rightarrow> error + py_context \<times> world" where
  "youku_cycle parse render inp s =
     (case s of (ctx, w) \<Rightarrow>
       (case fetch_youku_videos (fetched inp) w of (videos, w1) \<Rightarrow>
         (case videos of
            None \<Rightarrow> Inl TypeError
          | Some raw \<Rightarrow>
              (case parse_each parse raw of
                 Inl e \<Rightarrow> Inl e
               | Inr parsed_videos \<Rightarrow>
                   (case prepare_youku_feed render parsed_videos ctx of
                      (feed, ctx') \<Rightarrow>
                        (case push (posted inp) feed Youku w1 of
                           Inl e \<Rightarrow> Inl e
                         | Inr w2 \<Rightarrow> Inr (ctx', reportable_sleep (10 * 60) Youku w2)))))))"

text \<open>
  The \<^verbatim>\<open>while True\<close> loop itself, run for as many iterations as there are inputs: an
  exception ends it, and the iterations that were to follow do not happen.
\<close>

fun run_cycles ::
  "('i \<Rightarrow> 's \<Rightarrow> error + 's) \<Rightarrow> 'i list \<Rightarrow> 's \<Rightarrow> error + 's" where
  "run_cycles cycle [] s = Inr s"
| "run_cycles cycle (inp # inps) s =
     (case cycle inp s of Inl e \<Rightarrow> Inl e | Inr s' \<Rightarrow> run_cycles cycle inps s')"

section \<open>The runner\<close>

text \<open>
  The parsers and templates of the three sources, which the loops take from the feeder.
\<close>

record 'r collaborators =
  parse_weibo_status :: "'r \<Rightarrow> error + weibo_status"
  render_weibo_statuses :: "weibo_status list \<Rightarrow> string"
  parse_bilibili_upunuxi_submission :: "'r \<Rightarrow> error + bilibili_submission"
  render_bilibili_submissions :: "bilibili_submission list \<Rightarrow> string"
  parse_youku_video :: "'r \<Rightarrow> error + youku_video"
  render_youku_videos :: "youku_video list \<Rightarrow> string"

text \<open>
  \<^verbatim>\<open>Feeder.start\<close> makes one coroutine per source and identity of the configuration and
  hands them to \<^verbatim>\<open>asyncio.gather\<close>. \<^verbatim>\<open>gather\<close> wraps each coroutine in an
  \<^verbatim>\<open>asyncio.Task\<close>, and a task runs in a copy of the context that is current when it is
  made (\<^verbatim>\<open>contextvars.copy_context()\<close>): \<^verbatim>\<open>marker.get()\<close> and \<^verbatim>\<open>marker.set(v)\<close> inside a
  task read and write that copy. A task is therefore its source, its identity and its own
  context. \<^verbatim>\<open>config.sources.get(source)\<close> is \<^verbatim>\<open>None\<close> for a source without an entry, and
  the \<^verbatim>\<open>for\<close> over it raises.
\<close>

record 'i task =
  task_source :: source
  task_id :: 'i
  task_context :: py_context

definition copy_context :: "py_context \<Rightarrow> py_context" where
  "copy_context ctx = ctx"

fun start ::
  "source list \<Rightarrow> (source \<Rightarrow> 'i list option) \<Rightarrow> py_context \<Rightarrow> error + 'i task list" where
  "start [] config ctx = Inr []"
| "start (source # sources) config ctx =
     (case config source of
        None \<Rightarrow> Inl TypeError
      | Some ids \<Rightarrow>
          (case start sources config ctx of
             Inl e \<Rightarrow> Inl e
           | Inr tasks \<Rightarrow>
               Inr (map (\<lambda>id. \<lparr>task_source = source, task_id = id,
                                task_context = copy_context ctx\<rparr>) ids @ tasks)))"

text \<open>\<^verbatim>\<open>getattr(self, f"{source}_task")\<close>: the loop body that belongs to a source.\<close>

definition task_cycle ::
  "'r collaborators \<Rightarrow> source \<Rightarrow> 'r cycle_input \<Rightarrow> py_context \<times> world
     \<Rightarrow> error + py_context \<times> world" where
  "task_cycle ext src =
     (case src of
        Weibo \<Rightarrow> weibo_cycle (parse_weibo_status ext) (render_weibo_statuses ext)
      | Bilibili \<Rightarrow>
          bilibili_cycle (parse_bilibili_upunuxi_submission ext) (render_bilibili_submissions ext)
      | Youku \<Rightarrow> youku_cycle (parse_youku_video ext) (render_youku_videos ext))"

text \<open>
  The gathered tasks under a schedule: the list says which task runs its next iteration
  and what the environment gives it. The tasks share the world and nothing else. An
  exception that leaves one task leaves \<^verbatim>\<open>gather\<close>, \<^verbatim>\<open>start\<close> and \<^verbatim>\<open>asyncio.run\<close>, which
  ends the run. The event loop switches tasks at every \<^verbatim>\<open>await\<close>, which is finer than
  whole iterations; the markers are read and written between two awaits of an iteration
  and only in the task's own context, so for the contexts the coarser schedule loses
  nothing.
\<close>

fun gather ::
  "'r collaborators \<Rightarrow> (nat \<times> 'r cycle_input) list \<Rightarrow> 'i task list \<times> world
     \<Rightarrow> error + 'i task list \<times> world" where
  "gather ext [] s = Inr s"
| "gather ext ((k, inp) # schedule) (tasks, w) =
     (if k < length tasks then
        (case task_cycle ext (task_source (tasks ! k)) inp (task_context (tasks ! k), w) of
           Inl e \<Rightarrow> Inl e
         | Inr (ctx', w') \<Rightarrow>
             gather ext schedule (tasks[k := (tasks ! k)\<lparr>task_context := ctx'\<rparr>], w'))
      else gather ext schedule (tasks, w))"

text \<open>The inputs that a schedule gives to task \<open>k\<close>, in order.\<close>

definition own_cycles :: "nat \<Rightarrow> (nat \<times> 'a) list \<Rightarrow> 'a list" where
  "own_cycles k schedule = map snd (filter (\<lambda>p. fst p = k) schedule)"

section \<open>Successive calls of one loop\<close>

text \<open>
  The new items of successive calls of \<^verbatim>\<open>prepare_weibo_feed\<close> by one loop: a call is the
  clock reading and the parsed list; the list rendered by a call is recorded, and the next
  call starts from the context the call leaves. A call with an empty list returns before
  it selects anything.
\<close>

fun weibo_new_items ::
  "(weibo_status list \<Rightarrow> string) \<Rightarrow> py_context \<Rightarrow> (real \<times> weibo_status list) list
     \<Rightarrow> weibo_status list list" where
  "weibo_new_items render ctx [] = []"
| "weibo_new_items render ctx ((t, statuses) # calls) =
     (if statuses = [] then [] else weibo_new_statuses (weibo_marker ctx) statuses)
     # weibo_new_items render (snd (prepare_weibo_feed render t statuses ctx)) calls"

fun bilibili_new_items ::
  "(bilibili_submission list \<Rightarrow> string) \<Rightarrow> py_context
     \<Rightarrow> (real \<times> bilibili_submission list) list \<Rightarrow> bilibili_submission list list" where
  "bilibili_new_items render ctx [] = []"
| "bilibili_new_items render ctx ((t, submissions) # calls) =
     (if submissions = [] then []
      else bilibili_new_submissions (bilibili_marker ctx) submissions)
     # bilibili_new_items render (snd (prepare_bilibili_feed render t submissions ctx)) calls"

fun youku_new_items ::
  "(youku_video list \<Rightarrow> string) \<Rightarrow> py_context \<Rightarrow> youku_video list list
     \<Rightarrow> youku_video list list" where
  "youku_new_items render ctx [] = []"
| "youku_new_items render ctx (videos # calls) =
     (if videos = [] then [] else youku_new_videos (youku_marker ctx) videos)
     # youku_new_items render (snd (prepare_youku_feed render videos ctx)) calls"

text \<open>
  The preconditions of the claim about successive calls, as the claim words them. For the
  threshold policies: every item of a call has a timestamp that is at most the clock
  reading with which that call stamps the marker.
\<close>

definition stamped_in_time :: "('a \<Rightarrow> real) \<Rightarrow> (real \<times> 'a list) list \<Rightarrow> bool" where
  "stamped_in_time ts calls \<longleftrightarrow> (\<forall>(t, items) \<in> set calls. \<forall>x \<in> set items. ts x \<le> t)"

text \<open>
  For the boundary scan: the order of the fetched videos is stable, that is, the titles
  that two fetched lists have in common stand in the same order in both.
\<close>

definition same_order :: "'a list \<Rightarrow> 'a list \<Rightarrow> bool" where
  "same_order xs ys \<longleftrightarrow> filter (\<lambda>x. x \<in> set ys) xs = filter (\<lambda>y. y \<in> set xs) ys"

fun order_stable :: "'a list list \<Rightarrow> bool" where
  "order_stable [] = True"
| "order_stable (xs # xss) = (list_all (same_order xs) xss \<and> order_stable xss)"

text \<open>
  The sharper precondition under which the boundary scan reports no title twice: a
  fetched list starts with the videos whose titles were not fetched before, and the first
  video whose title was fetched before, if there is one, carries the title at the head of
  the last fetched list that was not empty. New videos come in at the front, and the
  newest known video is neither removed nor overtaken while an older one is still listed.
  \<open>seen\<close> are the titles fetched so far, \<open>prev\<close> is the last list that was not empty.
\<close>

fun head_stays :: "string list \<Rightarrow> youku_video list \<Rightarrow> youku_video list list \<Rightarrow> bool" where
  "head_stays seen prev [] = True"
| "head_stays seen prev (videos # calls) =
     (let kept = dropWhile (\<lambda>v. yv_title v \<notin> set seen) videos
      in (kept = [] \<or> (prev \<noteq> [] \<and> yv_title (hd kept) = yv_title (hd prev)))
         \<and> head_stays (map yv_title videos @ seen) (if videos = [] then prev else videos) calls)"

text \<open>
  What links the marker of the youku loop to the lists fetched so far: it is the title
  at the head of the last list that was not empty, and nothing has been seen while the
  marker is not set.
\<close>

definition youku_inv :: "py_context \<Rightarrow> string list \<Rightarrow> youku_video list \<Rightarrow> bool" where
  "youku_inv ctx seen prev \<longleftrightarrow>
     (prev \<noteq> [] \<longrightarrow> youku_marker ctx = Some (yv_title (hd prev)))
     \<and> (youku_marker ctx = None \<longrightarrow> seen = [])"

section \<open>Sample data\<close>

text \<open>
  Items and templates for the worked examples below. The templates of the package are not
  part of the sources at hand; every statement about a feed holds for any template, and the
  examples use these three.
\<close>

definition status_at :: "real \<Rightarrow> weibo_status" where
  "status_at t = \<lparr>ws_timestamp = t, ws_text = ''text'', ws_screen_name = ''name'',
     ws_comments_count = 0, ws_attitudes_count = 0, ws_link = ''https://m.weibo.cn/detail/1''\<rparr>"

definition submission_at :: "real \<Rightarrow> bilibili_submission" where
  "submission_at t = \<lparr>bs_title = ''title'', bs_timestamp = t, bs_length = ''01:00'',
     bs_author = ''author'', bs_link = ''https://www.bilibili.com/video/av1''\<rparr>"

definition video_titled :: "string \<Rightarrow> youku_video" where
  "video_titled k = \<lparr>yv_title = k, yv_link = ''link'', yv_pub_time_des = ''today'',
     yv_length = ''01:00''\<rparr>"

definition render_statuses :: "weibo_status list \<Rightarrow> string" where
  "render_statuses statuses = concat (map ws_link statuses)"

definition render_submissions :: "bilibili_submission list \<Rightarrow> string" where
  "render_submissions submissions = concat (map bs_link submissions)"

definition render_videos :: "youku_video list \<Rightarrow> string" where
  "render_videos videos = concat (map yv_title videos)"

definition sample_collaborators :: "weibo_status collaborators" where
  "sample_collaborators =
     \<lparr>parse_weibo_status = Inr,
      render_weibo_statuses = render_statuses,
      parse_bilibili_upunuxi_submission = (\<lambda>r. Inl KeyError),
      render_bilibili_submissions = render_submissions,
      parse_youku_video = (\<lambda>r. Inl KeyError),
      render_youku_videos = render_videos\<rparr>"

section \<open>Sorting and scanning\<close>

lemma scan_videos_takeWhile:
  "scan_videos m vs = takeWhile (\<lambda>v. yv_title v \<noteq> m) vs"
  by (induction vs) simp_all

lemma sorted_reverse_id:
  assumes "sorted_wrt (\<lambda>a b. f b \<le> f a) xs"
  shows "sorted_reverse f xs = xs"
proof -
  from assms have "sorted (map f (rev xs))"
    by (simp add: sorted_wrt_rev sorted_map)
  then show ?thesis
    by (simp add: sorted_reverse_def sort_key_id_if_sorted)
qed

lemma sorted_reverse_sorted:
  "sorted (rev (map f (sorted_reverse f xs)))"
  by (simp add: sorted_reverse_def rev_map)

lemma set_sorted_reverse: "set (sorted_reverse f xs) = set xs"
  by (simp add: sorted_reverse_def)

lemma sorted_reverse_Nil_iff: "sorted_reverse f xs = [] \<longleftrightarrow> xs = []"
  by (metis set_sorted_reverse set_empty)

lemma hd_sorted_reverse_max:
  assumes "x \<in> set xs"
  shows "f x \<le> f (hd (sorted_reverse f xs))"
proof -
  let ?ys = "sorted_reverse f xs"
  have s: "sorted_wrt (\<lambda>a b. f b \<le> f a) ?ys"
    using sorted_reverse_sorted[of f xs] by (simp add: sorted_wrt_rev sorted_wrt_map rev_map[symmetric])
  from assms have ne: "?ys \<noteq> []" by (simp add: sorted_reverse_Nil_iff) auto
  then obtain y ys where ys: "?ys = y # ys" by (cases ?ys) auto
  from assms have "x \<in> set ?ys" by (simp add: set_sorted_reverse)
  with s ys show ?thesis by auto
qed

lemma threshold_filter_takeWhile:
  assumes "sorted_wrt (\<lambda>a b. f b \<le> f a) xs"
  shows "filter (\<lambda>s. f s > (c::real)) xs = takeWhile (\<lambda>s. f s > c) xs"
proof -
  from assms have "sorted (rev (map f xs))"
    by (simp add: sorted_wrt_rev sorted_wrt_map rev_map[symmetric])
  then show ?thesis by (rule filter_equals_takeWhile_sorted_rev)
qed

lemma takeWhile_hd_Nil: "xs \<noteq> [] \<Longrightarrow> \<not> P (hd xs) \<Longrightarrow> takeWhile P xs = []"
  by (cases xs) simp_all

lemma take1_hd: "xs \<noteq> [] \<Longrightarrow> take (Suc 0) xs = [hd xs]"
  by (cases xs) simp_all

section \<open>What counts as new\<close>

lemma weibo_threshold:
  assumes "sorted_wrt (\<lambda>a b. ws_timestamp b \<le> ws_timestamp a) statuses"
  shows "weibo_new_statuses (Some c) statuses = takeWhile (\<lambda>s. c < ws_timestamp s) statuses"
  using assms by (simp add: weibo_new_statuses_def sorted_reverse_id threshold_filter_takeWhile)

lemma bilibili_threshold:
  assumes "sorted_wrt (\<lambda>a b. bs_timestamp b \<le> bs_timestamp a) submissions"
  shows "bilibili_new_submissions (Some c) submissions
    = takeWhile (\<lambda>s. c < bs_timestamp s) submissions"
  using assms
  by (simp add: bilibili_new_submissions_def sorted_reverse_id threshold_filter_takeWhile)

lemma weibo_threshold_feed:
  assumes "sorted_wrt (\<lambda>a b. ws_timestamp b \<le> ws_timestamp a) statuses"
    and "statuses \<noteq> []" and "weibo_marker ctx = Some c"
  shows "fst (prepare_weibo_feed render t statuses ctx)
    = render (takeWhile (\<lambda>s. c < ws_timestamp s) statuses)"
  using assms by (simp add: prepare_weibo_feed_def weibo_threshold)

lemma bilibili_threshold_feed:
  assumes "sorted_wrt (\<lambda>a b. bs_timestamp b \<le> bs_timestamp a) submissions"
    and "submissions \<noteq> []" and "bilibili_marker ctx = Some c"
  shows "fst (prepare_bilibili_feed render t submissions ctx)
    = render (takeWhile (\<lambda>s. c < bs_timestamp s) submissions)"
  using assms by (simp add: prepare_bilibili_feed_def bilibili_threshold)

text \<open>
  Claim C4. Threshold-since policies (weibo, bilibili) with a set marker \<open>c\<close>: when the
  parsed items arrive in descending order of timestamp, the new items are exactly the
  leading items whose timestamp is greater than \<open>c\<close>, that list is what the template
  renders, and it is empty when the first timestamp is at most \<open>c\<close>. Equal timestamps
  are allowed in the input; the strictly descending lists of the claim are a special case.
\<close>

theorem threshold_since_prefix:
  "(sorted_wrt (\<lambda>a b. ws_timestamp b \<le> ws_timestamp a) statuses \<longrightarrow>
      weibo_new_statuses (Some c) statuses = takeWhile (\<lambda>s. c < ws_timestamp s) statuses
      \<and> (statuses \<noteq> [] \<and> weibo_marker ctx = Some c \<longrightarrow>
           fst (prepare_weibo_feed render_w t statuses ctx)
             = render_w (takeWhile (\<lambda>s. c < ws_timestamp s) statuses))
      \<and> (statuses \<noteq> [] \<and> ws_timestamp (hd statuses) \<le> c \<longrightarrow>
           weibo_new_statuses (Some c) statuses = []))
   \<and> (sorted_wrt (\<lambda>a b. bs_timestamp b \<le> bs_timestamp a) submissions \<longrightarrow>
      bilibili_new_submissions (Some d) submissions
        = takeWhile (\<lambda>s. d < bs_timestamp s) submissions
      \<and> (submissions \<noteq> [] \<and> bilibili_marker ctx = Some d \<longrightarrow>
           fst (prepare_bilibili_feed render_b t submissions ctx)
             = render_b (takeWhile (\<lambda>s. d < bs_timestamp s) submissions))
      \<and> (submissions \<noteq> [] \<and> bs_timestamp (hd submissions) \<le> d \<longrightarrow>
           bilibili_new_submissions (Some d) submissions = []))"
  by (simp add: weibo_threshold bilibili_threshold weibo_threshold_feed bilibili_threshold_feed
      takeWhile_hd_Nil)

theorem threshold_since_prefix_witness:
  "sorted_wrt (\<lambda>a b. ws_timestamp b \<le> ws_timestamp a) [status_at 500, status_at 300, status_at 200]
   \<and> weibo_new_statuses (Some 250) [status_at 500, status_at 300, status_at 200]
       = [status_at 500, status_at 300]
   \<and> fst (prepare_weibo_feed render_statuses 600 [status_at 500, status_at 300, status_at 200]
        (init_context\<lparr>weibo_marker := Some 250\<rparr>))
       = render_statuses [status_at 500, status_at 300]
   \<and> sorted_wrt (\<lambda>a b. bs_timestamp b \<le> bs_timestamp a) [submission_at 500, submission_at 300]
   \<and> bs_timestamp (hd [submission_at 500, submission_at 300]) \<le> 700
   \<and> bilibili_new_submissions (Some 700) [submission_at 500, submission_at 300] = []"
  using threshold_since_prefix [of "[status_at 500, status_at 300, status_at 200]" 250
      "init_context\<lparr>weibo_marker := Some 250\<rparr>" render_statuses 600
      "[submission_at 500, submission_at 300]" 700 render_submissions]
  by (simp add: status_at_def submission_at_def)

text \<open>
  Claim C5. Cold start: with a marker that is not set and an input that is not empty,
  every policy hands exactly one item to its template. For weibo and bilibili it is the
  head of the input sorted descending by timestamp, an item of the input whose timestamp
  is the greatest, and the head of the input itself when that arrives in descending
  order; for youku, which does not sort, it is the head of the list as fetched.
\<close>

theorem cold_start_one_item:
  "(statuses \<noteq> [] \<longrightarrow>
      weibo_new_statuses None statuses = [hd (sorted_reverse ws_timestamp statuses)]
      \<and> hd (sorted_reverse ws_timestamp statuses) \<in> set statuses
      \<and> (\<forall>s \<in> set statuses.
            ws_timestamp s \<le> ws_timestamp (hd (sorted_reverse ws_timestamp statuses)))
      \<and> (weibo_marker ctx = None \<longrightarrow>
            fst (prepare_weibo_feed render_w t statuses ctx)
              = render_w [hd (sorted_reverse ws_timestamp statuses)])
      \<and> (sorted_wrt (\<lambda>a b. ws_timestamp b \<le> ws_timestamp a) statuses \<longrightarrow>
            weibo_new_statuses None statuses = [hd statuses]))
   \<and> (submissions \<noteq> [] \<longrightarrow>
      bilibili_new_submissions None submissions = [hd (sorted_reverse bs_timestamp submissions)]
      \<and> hd (sorted_reverse bs_timestamp submissions) \<in> set submissions
      \<and> (\<forall>s \<in> set submissions.
            bs_timestamp s \<le> bs_timestamp (hd (sorted_reverse bs_timestamp submissions)))
      \<and> (bilibili_marker ctx = None \<longrightarrow>
            fst (prepare_bilibili_feed render_b t submissions ctx)
              = render_b [hd (sorted_reverse bs_timestamp submissions)])
      \<and> (sorted_wrt (\<lambda>a b. bs_timestamp b \<le> bs_timestamp a) submissions \<longrightarrow>
            bilibili_new_submissions None submissions = [hd submissions]))
   \<and> (videos \<noteq> [] \<longrightarrow>
      youku_new_videos None videos = [hd videos]
      \<and> (youku_marker ctx = None \<longrightarrow>
            fst (prepare_youku_feed render_y videos ctx) = render_y [hd videos]))"
proof (intro conjI impI ballI)
  assume ne: "statuses \<noteq> []"
  then have sne: "sorted_reverse ws_timestamp statuses \<noteq> []"
    by (simp add: sorted_reverse_Nil_iff)
  show w: "weibo_new_statuses None statuses = [hd (sorted_reverse ws_timestamp statuses)]"
    using sne by (simp add: weibo_new_statuses_def take1_hd)
  show "hd (sorted_reverse ws_timestamp statuses) \<in> set statuses"
    using sne hd_in_set[OF sne] by (simp add: set_sorted_reverse)
  show "ws_timestamp s \<le> ws_timestamp (hd (sorted_reverse ws_timestamp statuses))"
    if "s \<in> set statuses" for s
    using that by (rule hd_sorted_reverse_max)
  show "fst (prepare_weibo_feed render_w t statuses ctx)
      = render_w [hd (sorted_reverse ws_timestamp statuses)]"
    if "weibo_marker ctx = None"
    using that ne w by (simp add: prepare_weibo_feed_def)
  show "weibo_new_statuses None statuses = [hd statuses]"
    if "sorted_wrt (\<lambda>a b. ws_timestamp b \<le> ws_timestamp a) statuses"
    using w sorted_reverse_id[OF that] by simp
next
  assume ne: "submissions \<noteq> []"
  then have sne: "sorted_reverse bs_timestamp submissions \<noteq> []"
    by (simp add: sorted_reverse_Nil_iff)
  show b: "bilibili_new_submissions None submissions
      = [hd (sorted_reverse bs_timestamp submissions)]"
    using sne by (simp add: bilibili_new_submissions_def take1_hd)
  show "hd (sorted_reverse bs_timestamp submissions) \<in> set submissions"
    using sne hd_in_set[OF sne] by (simp add: set_sorted_reverse)
  show "bs_timestamp s \<le> bs_timestamp (hd (sorted_reverse bs_timestamp submissions))"
    if "s \<in> set submissions" for s
    using that by (rule hd_sorted_reverse_max)
  show "fst (prepare_bilibili_feed render_b t submissions ctx)
      = render_b [hd (sorted_reverse bs_timestamp submissions)]"
    if "bilibili_marker ctx = None"
    using that ne b by (simp add: prepare_bilibili_feed_def)
  show "bilibili_new_submissions None submissions = [hd submissions]"
    if "sorted_wrt (\<lambda>a b. bs_timestamp b \<le> bs_timestamp a) submissions"
    using b sorted_reverse_id[OF that] by simp
next
  assume ne: "videos \<noteq> []"
  show y: "youku_new_videos None videos = [hd videos]"
    using ne by (simp add: youku_new_videos_def take1_hd)
  show "fst (prepare_youku_feed render_y videos ctx) = render_y [hd videos]"
    if "youku_marker ctx = None"
    using that ne y by (simp add: prepare_youku_feed_def)
qed

theorem cold_start_one_item_witness:
  "weibo_new_statuses None [status_at 200, status_at 300, status_at 100] = [status_at 300]
   \<and> fst (prepare_weibo_feed render_statuses 600 [status_at 200, status_at 300, status_at 100]
        init_context) = render_statuses [status_at 300]
   \<and> bilibili_new_submissions None [submission_at 100, submission_at 300, submission_at 300]
       = [submission_at 300]
   \<and> fst (prepare_bilibili_feed render_submissions 600
        [submission_at 100, submission_at 300, submission_at 300] init_context)
       = render_submissions [submission_at 300]
   \<and> youku_new_videos None [video_titled ''k1'', video_titled ''k2''] = [video_titled ''k1'']
   \<and> fst (prepare_youku_feed render_videos [video_titled ''k1'', video_titled ''k2'']
        init_context) = render_videos [video_titled ''k1'']
   \<and> sorted_wrt (\<lambda>a b. ws_timestamp b \<le> ws_timestamp a) [status_at 300, status_at 200]
   \<and> weibo_new_statuses None [status_at 300, status_at 200] = [hd [status_at 300, status_at 200]]
   \<and> sorted_wrt (\<lambda>a b. bs_timestamp b \<le> bs_timestamp a) [submission_at 300, submission_at 300]
   \<and> bilibili_new_submissions None [submission_at 300, submission_at 300]
       = [hd [submission_at 300, submission_at 300]]"
  using cold_start_one_item [where statuses = "[status_at 200, status_at 300, status_at 100]"
      and ctx = init_context and render_w = render_statuses and t = 600
      and submissions = "[submission_at 100, submission_at 300, submission_at 300]"
      and render_b = render_submissions
      and videos = "[video_titled ''k1'', video_titled ''k2'']" and render_y = render_videos]
    cold_start_one_item [where statuses = "[status_at 300, status_at 200]"
      and ctx = init_context and render_w = render_statuses and t = 600
      and submissions = "[submission_at 300, submission_at 300]"
      and render_b = render_submissions
      and videos = "[video_titled ''k1'', video_titled ''k2'']" and render_y = render_videos]
  by (simp add: sorted_reverse_def status_at_def submission_at_def init_context_def)

text \<open>
  Claim C6. Threshold-since policies: a call with a list that is not empty leaves the
  marker at the clock reading \<open>t\<close> of the call, whatever the timestamps of the items and
  whatever the marker was before, so also when no item passes the filter; nothing else
  of the context changes.
\<close>

theorem threshold_marker_is_now:
  "(statuses \<noteq> [] \<longrightarrow>
      snd (prepare_weibo_feed render_w t statuses ctx) = ctx\<lparr>weibo_marker := Some t\<rparr>)
   \<and> (submissions \<noteq> [] \<longrightarrow>
      snd (prepare_bilibili_feed render_b t submissions ctx) = ctx\<lparr>bilibili_marker := Some t\<rparr>)"
  by (simp add: prepare_weibo_feed_def prepare_bilibili_feed_def)

theorem threshold_marker_is_now_witness:
  "weibo_new_statuses (Some 400) [status_at 300, status_at 200] = []
   \<and> snd (prepare_weibo_feed render_statuses 1000 [status_at 300, status_at 200]
        (init_context\<lparr>weibo_marker := Some 400\<rparr>)) = init_context\<lparr>weibo_marker := Some 1000\<rparr>
   \<and> snd (prepare_bilibili_feed render_submissions 1000 [submission_at 300]
        (init_context\<lparr>weibo_marker := Some 400\<rparr>))
       = init_context\<lparr>weibo_marker := Some 400, bilibili_marker := Some 1000\<rparr>"
  using threshold_marker_is_now [where statuses = "[status_at 300, status_at 200]"
      and render_w = render_statuses and t = 1000
      and ctx = "init_context\<lparr>weibo_marker := Some 400\<rparr>"
      and submissions = "[submission_at 300]" and render_b = render_submissions]
  by (simp add: weibo_new_statuses_def sorted_reverse_def status_at_def)

lemma youku_new_videos_Some:
  "youku_new_videos (Some c) videos = takeWhile (\<lambda>v. yv_title v \<noteq> c) videos"
  by (simp add: youku_new_videos_def scan_videos_takeWhile)

lemma youku_marker_after:
  "youku_marker (snd (prepare_youku_feed render videos ctx))
     = (if videos = [] \<or> youku_new_videos (youku_marker ctx) videos = [] then youku_marker ctx
        else Some (yv_title (hd (youku_new_videos (youku_marker ctx) videos))))"
  by (simp add: prepare_youku_feed_def Let_def split: list.splits)

text \<open>
  Claim C7. Boundary scan (youku). With four videos of which the third carries the
  marker's title \<open>k3\<close> and the first two do not, the new videos are the first two and the
  marker becomes the title of the first. In general the new videos are the videos before
  the first one whose title equals the marker, and a call that collects no video leaves
  the context as it was.
\<close>

theorem boundary_scan_stops_at_marker:
  "(yv_title v1 \<noteq> k3 \<and> yv_title v2 \<noteq> k3 \<and> yv_title v3 = k3 \<and> youku_marker ctx = Some k3 \<longrightarrow>
      youku_new_videos (youku_marker ctx) [v1, v2, v3, v4] = [v1, v2]
      \<and> prepare_youku_feed render [v1, v2, v3, v4] ctx
          = (render [v1, v2], ctx\<lparr>youku_marker := Some (yv_title v1)\<rparr>))
   \<and> youku_new_videos (Some c) videos = takeWhile (\<lambda>v. yv_title v \<noteq> c) videos
   \<and> (youku_new_videos (youku_marker ctx) videos = [] \<longrightarrow>
        snd (prepare_youku_feed render videos ctx) = ctx)"
  by (simp add: youku_new_videos_Some prepare_youku_feed_def)

theorem boundary_scan_stops_at_marker_witness:
  "youku_new_videos (Some ''k3'')
      [video_titled ''k1'', video_titled ''k2'', video_titled ''k3'', video_titled ''k4'']
     = [video_titled ''k1'', video_titled ''k2'']
   \<and> prepare_youku_feed render_videos
        [video_titled ''k1'', video_titled ''k2'', video_titled ''k3'', video_titled ''k4'']
        (init_context\<lparr>youku_marker := Some ''k3''\<rparr>)
     = (''k1k2'', init_context\<lparr>youku_marker := Some ''k1''\<rparr>)
   \<and> youku_new_videos (Some ''k1'') [video_titled ''k1'', video_titled ''k0''] = []
   \<and> snd (prepare_youku_feed render_videos [video_titled ''k1'', video_titled ''k0'']
        (init_context\<lparr>youku_marker := Some ''k1''\<rparr>)) = init_context\<lparr>youku_marker := Some ''k1''\<rparr>"
  using boundary_scan_stops_at_marker [of "video_titled ''k1''" "''k3''" "video_titled ''k2''"
      "video_titled ''k3''" "init_context\<lparr>youku_marker := Some ''k3''\<rparr>" "video_titled ''k4''"
      render_videos "''k1''" "[]"]
    boundary_scan_stops_at_marker [of "video_titled ''k1''" "''k3''" "video_titled ''k2''"
      "video_titled ''k3''" "init_context\<lparr>youku_marker := Some ''k1''\<rparr>" "video_titled ''k4''"
      render_videos "''k1''" "[video_titled ''k1'', video_titled ''k0'']"]
  by (simp add: video_titled_def render_videos_def youku_new_videos_def)

text \<open>
  Claim C10. Boundary scan without a match: when the marker is set and no fetched video
  has its title, every fetched video is new and the marker becomes the title of the first.
\<close>

theorem boundary_scan_no_match:
  assumes ne: "videos \<noteq> []" and m: "youku_marker ctx = Some c"
    and nm: "c \<notin> yv_title ` set videos"
  shows "youku_new_videos (youku_marker ctx) videos = videos
     \<and> prepare_youku_feed render videos ctx
         = (render videos, ctx\<lparr>youku_marker := Some (yv_title (hd videos))\<rparr>)"
proof -
  have "takeWhile (\<lambda>v. yv_title v \<noteq> c) videos = videos"
    using nm by auto
  then have n: "youku_new_videos (youku_marker ctx) videos = videos"
    using m by (simp add: youku_new_videos_Some)
  from ne obtain v vs where "videos = v # vs" by (cases videos) auto
  with n show ?thesis
    by (simp add: prepare_youku_feed_def)
qed

theorem boundary_scan_no_match_witness:
  "[video_titled ''k5'', video_titled ''k4''] \<noteq> []
   \<and> ''k1'' \<notin> yv_title ` set [video_titled ''k5'', video_titled ''k4'']
   \<and> prepare_youku_feed render_videos [video_titled ''k5'', video_titled ''k4'']
        (init_context\<lparr>youku_marker := Some ''k1''\<rparr>)
       = (''k5k4'', init_context\<lparr>youku_marker := Some ''k5''\<rparr>)"
  using boundary_scan_no_match [of "[video_titled ''k5'', video_titled ''k4'']"
      "init_context\<lparr>youku_marker := Some ''k1''\<rparr>" "''k1''" render_videos]
  by (simp add: video_titled_def render_videos_def)

section \<open>Cycles that fetch nothing, fail to fetch, or fail to push\<close>

lemma pushed_reportable_sleep: "pushed (reportable_sleep n src w) = pushed w"
  by (simp add: reportable_sleep_def)

text \<open>
  Claim C9. An empty fetch: each \<^verbatim>\<open>prepare_*_feed\<close> returns the empty feed and the context
  it was given, \<^verbatim>\<open>push\<close> of the empty feed sends nothing and changes nothing, and a whole
  iteration of each loop whose fetch returns the empty list ends with the same context
  and only the sleep added to the world, which adds no notification.
\<close>

theorem empty_fetch_is_idle:
  "prepare_weibo_feed render_w t [] ctx = ('''', ctx)
   \<and> prepare_bilibili_feed render_b t [] ctx = ('''', ctx)
   \<and> prepare_youku_feed render_y [] ctx = ('''', ctx)
   \<and> push post '''' src w = Inr w
   \<and> weibo_cycle parse_w render_w \<lparr>fetched = Inr [], now = t, posted = post\<rparr> (ctx, w)
       = Inr (ctx, reportable_sleep (10 * 60) Weibo w)
   \<and> bilibili_cycle parse_b render_b \<lparr>fetched = Inr [], now = t, posted = post\<rparr> (ctx, w)
       = Inr (ctx, reportable_sleep (10 * 60) Bilibili w)
   \<and> youku_cycle parse_y render_y \<lparr>fetched = Inr [], now = t, posted = post\<rparr> (ctx, w)
       = Inr (ctx, reportable_sleep (10 * 60) Youku w)
   \<and> pushed (reportable_sleep (10 * 60) src w) = pushed w"
  by (simp add: prepare_weibo_feed_def prepare_bilibili_feed_def prepare_youku_feed_def push_def
      weibo_cycle_def bilibili_cycle_def youku_cycle_def fetch_weibo_statuses_def
      fetch_bilibili_upunuxi_submissions_def fetch_youku_videos_def pushed_reportable_sleep)

text \<open>
  Claim C1. A fetch that fails, in each loop. In \<^verbatim>\<open>weibo_task\<close> the exception is logged,
  the context and the notifications stay as they were, and the iteration ends with its
  sleep. In \<^verbatim>\<open>bilibili_task\<close> and \<^verbatim>\<open>youku_task\<close> the fetch returns \<^verbatim>\<open>None\<close> in the same
  way, but the iteration goes on to iterate over it: a \<^verbatim>\<open>TypeError\<close> leaves the loop, and
  the iterations that were to follow do not run.
\<close>

theorem failed_fetch_cycle:
  "weibo_cycle parse_w render_w \<lparr>fetched = Inl e, now = t, posted = post\<rparr> (ctx, w)
     = Inr (ctx, reportable_sleep (10 * 60) Weibo (w\<lparr>logged := logged w @ [LogException e]\<rparr>))
   \<and> bilibili_cycle parse_b render_b \<lparr>fetched = Inl e, now = t, posted = post\<rparr> (ctx, w)
     = Inl TypeError
   \<and> youku_cycle parse_y render_y \<lparr>fetched = Inl e, now = t, posted = post\<rparr> (ctx, w)
     = Inl TypeError
   \<and> run_cycles (bilibili_cycle parse_b render_b)
        (\<lparr>fetched = Inl e, now = t, posted = post\<rparr> # later) (ctx, w) = Inl TypeError
   \<and> run_cycles (youku_cycle parse_y render_y)
        (\<lparr>fetched = Inl e, now = t, posted = post\<rparr> # later) (ctx, w) = Inl TypeError"
  by (simp add: weibo_cycle_def bilibili_cycle_def youku_cycle_def fetch_weibo_statuses_def
      fetch_bilibili_upunuxi_submissions_def fetch_youku_videos_def)

lemma parse_each_length: "parse_each parse rs = Inr xs \<Longrightarrow> length xs = length rs"
  by (induction rs arbitrary: xs) (auto split: sum.splits)

lemma parse_each_Nil_iff: "parse_each parse rs = Inr xs \<Longrightarrow> xs = [] \<longleftrightarrow> rs = []"
  using parse_each_length[of parse rs xs] by auto

lemma push_raises: "feed \<noteq> [] \<Longrightarrow> push (Some e) feed src w = Inl e"
  by (simp add: push_def)

lemma weibo_cycle_push_raises:
  assumes "fetched inp = Inr raw" and "parse_each parse raw = Inr statuses"
    and "fst (prepare_weibo_feed render (now inp) statuses ctx) \<noteq> []"
    and "posted inp = Some e"
  shows "weibo_cycle parse render inp (ctx, w) = Inl e"
proof -
  from assms(3) have "statuses \<noteq> []"
    by (auto simp: prepare_weibo_feed_def)
  with assms(2) have "raw \<noteq> []"
    by (simp add: parse_each_Nil_iff)
  with assms show ?thesis
    by (simp add: weibo_cycle_def fetch_weibo_statuses_def push_raises case_prod_beta)
qed

lemma bilibili_cycle_push_raises:
  assumes "fetched inp = Inr raw" and "parse_each parse raw = Inr submissions"
    and "fst (prepare_bilibili_feed render (now inp) submissions ctx) \<noteq> []"
    and "posted inp = Some e"
  shows "bilibili_cycle parse render inp (ctx, w) = Inl e"
  using assms
  by (simp add: bilibili_cycle_def fetch_bilibili_upunuxi_submissions_def push_raises
      case_prod_beta)

lemma youku_cycle_push_raises:
  assumes "fetched inp = Inr raw" and "parse_each parse (take 5 raw) = Inr videos"
    and "fst (prepare_youku_feed render videos ctx) \<noteq> []"
    and "posted inp = Some e"
  shows "youku_cycle parse render inp (ctx, w) = Inl e"
  using assms
  by (simp add: youku_cycle_def fetch_youku_videos_def push_raises case_prod_beta)

text \<open>
  Claim C2, as stated, at a concrete input: a weibo iteration fetches one status, the
  POST of the push raises, and the exception is the result of the iteration and of the
  loop; the second iteration of the schedule does not run.
\<close>

theorem push_failure_counterexample:
  "weibo_cycle Inr render_statuses
      \<lparr>fetched = Inr [status_at 300], now = 1000, posted = Some HTTPStatusError\<rparr>
      (init_context, init_world) = Inl HTTPStatusError
   \<and> run_cycles (weibo_cycle Inr render_statuses)
      [\<lparr>fetched = Inr [status_at 300], now = 1000, posted = Some HTTPStatusError\<rparr>,
       \<lparr>fetched = Inr [status_at 1500], now = 2000, posted = None\<rparr>]
      (init_context, init_world) = Inl HTTPStatusError"
  by (simp add: weibo_cycle_def fetch_weibo_statuses_def prepare_weibo_feed_def push_def
      weibo_new_statuses_def sorted_reverse_def render_statuses_def status_at_def
      init_context_def)

text \<open>
  Claim C2, amended. A failure of the push is not caught inside the iteration: when the
  feed is not empty and the POST raises \<open>e\<close>, then \<open>e\<close> leaves \<^verbatim>\<open>push\<close> and the loop
  body, the iteration does not reach its sleep, and the loop ends with \<open>e\<close> whatever
  iterations were to follow. This holds for each of the three loops.
\<close>

theorem push_failure_ends_loop:
  "(fetched inp = Inr raw \<and> parse_each parse_w raw = Inr statuses
      \<and> fst (prepare_weibo_feed render_w (now inp) statuses ctx) \<noteq> []
      \<and> posted inp = Some e \<longrightarrow>
        weibo_cycle parse_w render_w inp (ctx, w) = Inl e
        \<and> run_cycles (weibo_cycle parse_w render_w) (inp # later) (ctx, w) = Inl e)
   \<and> (fetched inp = Inr raw \<and> parse_each parse_b raw = Inr submissions
      \<and> fst (prepare_bilibili_feed render_b (now inp) submissions ctx) \<noteq> []
      \<and> posted inp = Some e \<longrightarrow>
        bilibili_cycle parse_b render_b inp (ctx, w) = Inl e
        \<and> run_cycles (bilibili_cycle parse_b render_b) (inp # later) (ctx, w) = Inl e)
   \<and> (fetched inp = Inr raw \<and> parse_each parse_y (take 5 raw) = Inr videos
      \<and> fst (prepare_youku_feed render_y videos ctx) \<noteq> []
      \<and> posted inp = Some e \<longrightarrow>
        youku_cycle parse_y render_y inp (ctx, w) = Inl e
        \<and> run_cycles (youku_cycle parse_y render_y) (inp # later) (ctx, w) = Inl e)"
  by (simp add: weibo_cycle_push_raises bilibili_cycle_push_raises youku_cycle_push_raises)

theorem push_failure_ends_loop_witness:
  "run_cycles (weibo_cycle Inr render_statuses)
      [\<lparr>fetched = Inr [status_at 300], now = 1000, posted = Some HTTPStatusError\<rparr>,
       \<lparr>fetched = Inr [status_at 1500], now = 2000, posted = None\<rparr>]
      (init_context, init_world) = Inl HTTPStatusError
   \<and> run_cycles (bilibili_cycle Inr render_submissions)
      [\<lparr>fetched = Inr [submission_at 300], now = 1000, posted = Some HTTPStatusError\<rparr>,
       \<lparr>fetched = Inr [submission_at 1500], now = 2000, posted = None\<rparr>]
      (init_context, init_world) = Inl HTTPStatusError
   \<and> run_cycles (youku_cycle Inr render_videos)
      [\<lparr>fetched = Inr [video_titled ''k1''], now = 1000, posted = Some HTTPStatusError\<rparr>,
       \<lparr>fetched = Inr [video_titled ''k2'', video_titled ''k1''], now = 2000, posted = None\<rparr>]
      (init_context, init_world) = Inl HTTPStatusError"
  using push_failure_ends_loop [where inp = "\<lparr>fetched = Inr [status_at 300], now = 1000,
        posted = Some HTTPStatusError\<rparr>" and raw = "[status_at 300]" and parse_w = Inr
      and statuses = "[status_at 300]" and render_w = render_statuses and ctx = init_context
      and e = HTTPStatusError and w = init_world
      and later = "[\<lparr>fetched = Inr [status_at 1500], now = 2000, posted = None\<rparr>]"]
    push_failure_ends_loop [where inp = "\<lparr>fetched = Inr [submission_at 300], now = 1000,
        posted = Some HTTPStatusError\<rparr>" and raw = "[submission_at 300]" and parse_b = Inr
      and submissions = "[submission_at 300]" and render_b = render_submissions
      and ctx = init_context and e = HTTPStatusError and w = init_world
      and later = "[\<lparr>fetched = Inr [submission_at 1500], now = 2000, posted = None\<rparr>]"]
    push_failure_ends_loop [where inp = "\<lparr>fetched = Inr [video_titled ''k1''], now = 1000,
        posted = Some HTTPStatusError\<rparr>" and raw = "[video_titled ''k1'']" and parse_y = Inr
      and videos = "[video_titled ''k1'']" and render_y = render_videos
      and ctx = init_context and e = HTTPStatusError and w = init_world
      and later = "[\<lparr>fetched = Inr [video_titled ''k2'', video_titled ''k1''], now = 2000,
        posted = None\<rparr>]"]
  by (simp add: prepare_weibo_feed_def prepare_bilibili_feed_def prepare_youku_feed_def
      weibo_new_statuses_def bilibili_new_submissions_def youku_new_videos_def sorted_reverse_def
      render_statuses_def render_submissions_def render_videos_def
      status_at_def submission_at_def video_titled_def init_context_def)

section \<open>No item is reported twice\<close>

lemma related_nth_Cons:
  assumes "\<forall>M \<in> set tr. R N M"
    and "\<forall>i j. i < j \<and> j < length tr \<longrightarrow> R (tr ! i) (tr ! j)"
  shows "\<forall>i j. i < j \<and> j < length (N # tr) \<longrightarrow> R ((N # tr) ! i) ((N # tr) ! j)"
proof (intro allI impI)
  fix i j
  assume ij: "i < j \<and> j < length (N # tr)"
  then obtain j' where j: "j = Suc j'" and j': "j' < length tr"
    by (cases j) auto
  show "R ((N # tr) ! i) ((N # tr) ! j)"
  proof (cases i)
    case 0
    with j j' assms(1) show ?thesis by simp
  next
    case (Suc i')
    with ij j assms(2) show ?thesis by simp
  qed
qed

lemma length_weibo_new_items: "length (weibo_new_items render ctx calls) = length calls"
  by (induction calls arbitrary: ctx) auto

lemma length_bilibili_new_items: "length (bilibili_new_items render ctx calls) = length calls"
  by (induction calls arbitrary: ctx) auto

lemma length_youku_new_items: "length (youku_new_items render ctx calls) = length calls"
  by (induction calls arbitrary: ctx) auto

lemma weibo_new_statuses_subset: "set (weibo_new_statuses marker statuses) \<subseteq> set statuses"
proof (cases marker)
  case None
  then show ?thesis
    using set_take_subset[of 1 "sorted_reverse ws_timestamp statuses"]
    by (simp add: weibo_new_statuses_def set_sorted_reverse)
next
  case (Some m)
  then show ?thesis
    by (auto simp: weibo_new_statuses_def set_sorted_reverse)
qed

lemma bilibili_new_submissions_subset:
  "set (bilibili_new_submissions marker submissions) \<subseteq> set submissions"
proof (cases marker)
  case None
  then show ?thesis
    using set_take_subset[of 1 "sorted_reverse bs_timestamp submissions"]
    by (simp add: bilibili_new_submissions_def set_sorted_reverse)
next
  case (Some m)
  then show ?thesis
    by (auto simp: bilibili_new_submissions_def set_sorted_reverse)
qed

lemma youku_new_videos_subset: "set (youku_new_videos marker videos) \<subseteq> set videos"
proof (cases marker)
  case None
  then show ?thesis using set_take_subset[of 1 videos] by (simp add: youku_new_videos_def)
next
  case (Some m)
  then show ?thesis by (auto simp: youku_new_videos_Some dest: set_takeWhileD)
qed

lemma later_readings:
  assumes "sorted (map fst ((t, items) # calls))"
  shows "\<forall>(t', items') \<in> set calls. t \<le> t'"
  using assms by auto

lemma weibo_later_items_newer:
  assumes "weibo_marker ctx = Some c" and "b \<le> c"
    and "\<forall>(t, statuses) \<in> set calls. b \<le> t"
  shows "\<forall>N \<in> set (weibo_new_items render ctx calls). \<forall>y \<in> set N. b < ws_timestamp y"
  using assms
proof (induction calls arbitrary: ctx c)
  case Nil
  then show ?case by simp
next
  case (Cons call calls)
  obtain t statuses where call: "call = (t, statuses)" by (cases call)
  let ?ctx' = "snd (prepare_weibo_feed render t statuses ctx)"
  have head: "\<forall>y \<in> set (weibo_new_statuses (weibo_marker ctx) statuses). b < ws_timestamp y"
    using Cons.prems(1,2) by (auto simp: weibo_new_statuses_def)
  have later: "\<forall>(t, statuses) \<in> set calls. b \<le> t"
    using Cons.prems(3) by simp
  have "\<exists>c'. weibo_marker ?ctx' = Some c' \<and> b \<le> c'"
  proof (cases "statuses = []")
    case True
    with Cons.prems(1,2) show ?thesis by (simp add: prepare_weibo_feed_def)
  next
    case False
    from Cons.prems(3) call have "b \<le> t" by simp
    with False show ?thesis by (simp add: prepare_weibo_feed_def)
  qed
  then obtain c' where "weibo_marker ?ctx' = Some c'" and "b \<le> c'" by blast
  from Cons.IH[OF this later] head call show ?case by simp
qed

lemma weibo_no_renotify:
  assumes "stamped_in_time ws_timestamp calls" and "sorted (map fst calls)"
  shows "\<forall>i j. i < j \<and> j < length calls \<longrightarrow>
    (\<forall>x \<in> set (weibo_new_items render ctx calls ! i).
       \<forall>y \<in> set (weibo_new_items render ctx calls ! j). ws_timestamp x < ws_timestamp y)"
  using assms
proof (induction calls arbitrary: ctx)
  case Nil
  then show ?case by simp
next
  case (Cons call calls)
  obtain t statuses where call: "call = (t, statuses)" by (cases call)
  let ?R = "\<lambda>N M. \<forall>x \<in> set N. \<forall>y \<in> set M. ws_timestamp x < ws_timestamp y"
  let ?N = "if statuses = [] then [] else weibo_new_statuses (weibo_marker ctx) statuses"
  let ?ctx' = "snd (prepare_weibo_feed render t statuses ctx)"
  let ?tr = "weibo_new_items render ?ctx' calls"
  from Cons.prems have rest: "stamped_in_time ws_timestamp calls" "sorted (map fst calls)"
    by (simp_all add: stamped_in_time_def)
  have tail: "\<forall>i j. i < j \<and> j < length ?tr \<longrightarrow> ?R (?tr ! i) (?tr ! j)"
    using Cons.IH[OF rest, of ?ctx'] by (simp add: length_weibo_new_items)
  have later: "\<forall>(t', items') \<in> set calls. t \<le> t'"
    using Cons.prems(2) unfolding call by (rule later_readings)
  have head: "\<forall>M \<in> set ?tr. ?R ?N M"
  proof (cases "statuses = []")
    case True
    then show ?thesis by simp
  next
    case False
    then have m: "weibo_marker ?ctx' = Some t" by (simp add: prepare_weibo_feed_def)
    have newer: "\<forall>M \<in> set ?tr. \<forall>y \<in> set M. t < ws_timestamp y"
      using weibo_later_items_newer[OF m order_refl later] .
    have "ws_timestamp x \<le> t" if "x \<in> set ?N" for x
    proof -
      from that False have "x \<in> set statuses"
        using weibo_new_statuses_subset by auto
      with Cons.prems(1) call show ?thesis by (auto simp: stamped_in_time_def)
    qed
    with newer show ?thesis by fastforce
  qed
  from related_nth_Cons[of ?tr ?R ?N, OF head tail] call show ?case
    by (simp add: length_weibo_new_items)
qed

lemma bilibili_later_items_newer:
  assumes "bilibili_marker ctx = Some c" and "b \<le> c"
    and "\<forall>(t, submissions) \<in> set calls. b \<le> t"
  shows "\<forall>N \<in> set (bilibili_new_items render ctx calls). \<forall>y \<in> set N. b < bs_timestamp y"
  using assms
proof (induction calls arbitrary: ctx c)
  case Nil
  then show ?case by simp
next
  case (Cons call calls)
  obtain t submissions where call: "call = (t, submissions)" by (cases call)
  let ?ctx' = "snd (prepare_bilibili_feed render t submissions ctx)"
  have head:
    "\<forall>y \<in> set (bilibili_new_submissions (bilibili_marker ctx) submissions). b < bs_timestamp y"
    using Cons.prems(1,2) by (auto simp: bilibili_new_submissions_def)
  have later: "\<forall>(t, submissions) \<in> set calls. b \<le> t"
    using Cons.prems(3) by simp
  have "\<exists>c'. bilibili_marker ?ctx' = Some c' \<and> b \<le> c'"
  proof (cases "submissions = []")
    case True
    with Cons.prems(1,2) show ?thesis by (simp add: prepare_bilibili_feed_def)
  next
    case False
    from Cons.prems(3) call have "b \<le> t" by simp
    with False show ?thesis by (simp add: prepare_bilibili_feed_def)
  qed
  then obtain c' where "bilibili_marker ?ctx' = Some c'" and "b \<le> c'" by blast
  from Cons.IH[OF this later] head call show ?case by simp
qed

lemma bilibili_no_renotify:
  assumes "stamped_in_time bs_timestamp calls" and "sorted (map fst calls)"
  shows "\<forall>i j. i < j \<and> j < length calls \<longrightarrow>
    (\<forall>x \<in> set (bilibili_new_items render ctx calls ! i).
       \<forall>y \<in> set (bilibili_new_items render ctx calls ! j). bs_timestamp x < bs_timestamp y)"
  using assms
proof (induction calls arbitrary: ctx)
  case Nil
  then show ?case by simp
next
  case (Cons call calls)
  obtain t submissions where call: "call = (t, submissions)" by (cases call)
  let ?R = "\<lambda>N M. \<forall>x \<in> set N. \<forall>y \<in> set M. bs_timestamp x < bs_timestamp y"
  let ?N = "if submissions = [] then []
            else bilibili_new_submissions (bilibili_marker ctx) submissions"
  let ?ctx' = "snd (prepare_bilibili_feed render t submissions ctx)"
  let ?tr = "bilibili_new_items render ?ctx' calls"
  from Cons.prems have rest: "stamped_in_time bs_timestamp calls" "sorted (map fst calls)"
    by (simp_all add: stamped_in_time_def)
  have tail: "\<forall>i j. i < j \<and> j < length ?tr \<longrightarrow> ?R (?tr ! i) (?tr ! j)"
    using Cons.IH[OF rest, of ?ctx'] by (simp add: length_bilibili_new_items)
  have later: "\<forall>(t', items') \<in> set calls. t \<le> t'"
    using Cons.prems(2) unfolding call by (rule later_readings)
  have head: "\<forall>M \<in> set ?tr. ?R ?N M"
  proof (cases "submissions = []")
    case True
    then show ?thesis by simp
  next
    case False
    then have m: "bilibili_marker ?ctx' = Some t" by (simp add: prepare_bilibili_feed_def)
    have newer: "\<forall>M \<in> set ?tr. \<forall>y \<in> set M. t < bs_timestamp y"
      using bilibili_later_items_newer[OF m order_refl later] .
    have "bs_timestamp x \<le> t" if "x \<in> set ?N" for x
    proof -
      from that False have "x \<in> set submissions"
        using bilibili_new_submissions_subset by auto
      with Cons.prems(1) call show ?thesis by (auto simp: stamped_in_time_def)
    qed
    with newer show ?thesis by fastforce
  qed
  from related_nth_Cons[of ?tr ?R ?N, OF head tail] call show ?case
    by (simp add: length_bilibili_new_items)
qed

lemma youku_new_videos_hd:
  assumes "videos \<noteq> []" and "youku_new_videos marker videos \<noteq> []"
  shows "hd (youku_new_videos marker videos) = hd videos"
proof -
  from assms(1) obtain v vs where "videos = v # vs" by (cases videos) auto
  with assms(2) show ?thesis
    by (cases marker) (auto simp: youku_new_videos_def split: if_splits)
qed

lemma youku_new_videos_Nil:
  assumes "videos \<noteq> []" and "youku_new_videos marker videos = []"
  shows "marker = Some (yv_title (hd videos))"
proof -
  from assms(1) obtain v vs where "videos = v # vs" by (cases videos) auto
  with assms(2) show ?thesis
    by (cases marker) (auto simp: youku_new_videos_def split: if_splits)
qed

lemma youku_marker_step:
  assumes "videos \<noteq> []"
  shows "youku_marker (snd (prepare_youku_feed render videos ctx)) = Some (yv_title (hd videos))"
proof (cases "youku_new_videos (youku_marker ctx) videos = []")
  case True
  with assms youku_new_videos_Nil[OF assms True] show ?thesis
    by (simp add: youku_marker_after)
next
  case False
  with assms youku_new_videos_hd[OF assms False] show ?thesis
    by (simp add: youku_marker_after)
qed

lemma youku_inv_step:
  assumes "youku_inv ctx seen prev"
  shows "youku_inv (snd (prepare_youku_feed render videos ctx))
           (map yv_title videos @ seen) (if videos = [] then prev else videos)"
proof (cases "videos = []")
  case True
  with assms show ?thesis by (simp add: youku_inv_def prepare_youku_feed_def)
next
  case False
  with youku_marker_step[OF False, of render ctx] show ?thesis
    by (simp add: youku_inv_def)
qed

lemma youku_inv_start: "youku_inv ctx [] []"
  by (simp add: youku_inv_def)

lemma youku_new_unseen:
  assumes inv: "youku_inv ctx seen prev"
    and kept: "dropWhile (\<lambda>v. yv_title v \<notin> set seen) videos = []
      \<or> (prev \<noteq> []
          \<and> yv_title (hd (dropWhile (\<lambda>v. yv_title v \<notin> set seen) videos)) = yv_title (hd prev))"
  shows "yv_title ` set (youku_new_videos (youku_marker ctx) videos) \<inter> set seen = {}"
proof (cases "youku_marker ctx")
  case None
  with inv have "seen = []" by (simp add: youku_inv_def)
  then show ?thesis by simp
next
  case (Some m)
  let ?P = "\<lambda>v. yv_title v \<notin> set seen"
  let ?fresh = "takeWhile ?P videos"
  let ?kept = "dropWhile ?P videos"
  have fresh: "\<forall>v \<in> set ?fresh. yv_title v \<notin> set seen"
    by (auto dest: set_takeWhileD)
  show ?thesis
  proof (cases "?kept = []")
    case True
    then have "\<forall>v \<in> set videos. yv_title v \<notin> set seen"
      by simp
    with youku_new_videos_subset[of "youku_marker ctx" videos] show ?thesis by auto
  next
    case False
    with kept have pne: "prev \<noteq> []" and hdk: "yv_title (hd ?kept) = yv_title (hd prev)"
      by auto
    from pne inv Some have m: "m = yv_title (hd prev)" by (simp add: youku_inv_def)
    from False have "\<not> ?P (hd ?kept)" by (rule hd_dropWhile)
    with hdk m have mseen: "m \<in> set seen" by simp
    have nofresh: "\<forall>v \<in> set ?fresh. yv_title v \<noteq> m"
      using fresh mseen by auto
    from False obtain k ks where k: "?kept = k # ks" by (cases ?kept) auto
    with hdk m have "yv_title k = m" by simp
    with k nofresh have "takeWhile (\<lambda>v. yv_title v \<noteq> m) (?fresh @ ?kept) = ?fresh"
      by simp
    then have "youku_new_videos (Some m) videos = ?fresh"
      by (simp add: youku_new_videos_Some)
    with Some fresh show ?thesis by auto
  qed
qed

lemma youku_seen_stays_out:
  assumes "youku_inv ctx seen prev" and "head_stays seen prev calls"
  shows "\<forall>N \<in> set (youku_new_items render ctx calls). yv_title ` set N \<inter> set seen = {}"
  using assms
proof (induction calls arbitrary: ctx seen prev)
  case Nil
  then show ?case by simp
next
  case (Cons videos calls)
  let ?ctx' = "snd (prepare_youku_feed render videos ctx)"
  let ?seen' = "map yv_title videos @ seen"
  let ?prev' = "if videos = [] then prev else videos"
  from Cons.prems(2) have kept: "dropWhile (\<lambda>v. yv_title v \<notin> set seen) videos = []
      \<or> (prev \<noteq> []
          \<and> yv_title (hd (dropWhile (\<lambda>v. yv_title v \<notin> set seen) videos)) = yv_title (hd prev))"
    and st: "head_stays ?seen' ?prev' calls"
    by (simp_all add: Let_def)
  have head: "yv_title ` set (youku_new_videos (youku_marker ctx) videos) \<inter> set seen = {}"
    using Cons.prems(1) kept by (rule youku_new_unseen)
  have "\<forall>N \<in> set (youku_new_items render ?ctx' calls). yv_title ` set N \<inter> set ?seen' = {}"
    using youku_inv_step[OF Cons.prems(1)] st by (rule Cons.IH)
  then have "\<forall>N \<in> set (youku_new_items render ?ctx' calls). yv_title ` set N \<inter> set seen = {}"
    by auto
  with head show ?case by simp
qed

lemma youku_no_renotify_inv:
  assumes "youku_inv ctx seen prev" and "head_stays seen prev calls"
  shows "\<forall>i j. i < j \<and> j < length calls \<longrightarrow>
    yv_title ` set (youku_new_items render ctx calls ! i)
      \<inter> yv_title ` set (youku_new_items render ctx calls ! j) = {}"
  using assms
proof (induction calls arbitrary: ctx seen prev)
  case Nil
  then show ?case by simp
next
  case (Cons videos calls)
  let ?R = "\<lambda>N M. yv_title ` set N \<inter> yv_title ` set M = {}"
  let ?N = "if videos = [] then [] else youku_new_videos (youku_marker ctx) videos"
  let ?ctx' = "snd (prepare_youku_feed render videos ctx)"
  let ?seen' = "map yv_title videos @ seen"
  let ?prev' = "if videos = [] then prev else videos"
  let ?tr = "youku_new_items render ?ctx' calls"
  from Cons.prems(2) have st: "head_stays ?seen' ?prev' calls"
    by (simp add: Let_def)
  have inv': "youku_inv ?ctx' ?seen' ?prev'"
    using Cons.prems(1) by (rule youku_inv_step)
  have tail: "\<forall>i j. i < j \<and> j < length ?tr \<longrightarrow> ?R (?tr ! i) (?tr ! j)"
    using Cons.IH[OF inv' st] by (simp add: length_youku_new_items)
  have out: "\<forall>M \<in> set ?tr. yv_title ` set M \<inter> set ?seen' = {}"
    using inv' st by (rule youku_seen_stays_out)
  have sub: "set ?N \<subseteq> set videos"
    using youku_new_videos_subset[of "youku_marker ctx" videos] by simp
  have head: "\<forall>M \<in> set ?tr. ?R ?N M"
  proof
    fix M assume "M \<in> set ?tr"
    with out have "yv_title ` set M \<inter> yv_title ` set videos = {}" by auto
    with sub show "?R ?N M" by blast
  qed
  from related_nth_Cons[of ?tr ?R ?N, OF head tail] show ?case
    by (simp add: length_youku_new_items)
qed

text \<open>
  Claim C8, as stated, at concrete inputs. Weibo: every status has a timestamp at most the
  clock reading of the call that fetched it, the clock steps back between the first and
  the second call, and the status of timestamp 900 is new in the first call and again in
  the third. Youku: the titles that two fetched lists share stand in the same order in
  both, the newest video of the second list is gone from the third, and the video titled
  \<open>k2\<close> is new in the first call and again in the third.
\<close>

theorem renotified_counterexample:
  "stamped_in_time ws_timestamp
      [(1000, [status_at 900]), (500, [status_at 400]), (1000, [status_at 900, status_at 400])]
   \<and> weibo_new_items render_statuses init_context
        [(1000, [status_at 900]), (500, [status_at 400]), (1000, [status_at 900, status_at 400])]
       = [[status_at 900], [], [status_at 900]]
   \<and> order_stable [[''k2'', ''k1''], [''k3'', ''k2'', ''k1''], [''k2'', ''k1'']]
   \<and> youku_new_items render_videos init_context
        [[video_titled ''k2'', video_titled ''k1''],
         [video_titled ''k3'', video_titled ''k2'', video_titled ''k1''],
         [video_titled ''k2'', video_titled ''k1'']]
       = [[video_titled ''k2''], [video_titled ''k3''],
          [video_titled ''k2'', video_titled ''k1'']]"
  by (simp add: stamped_in_time_def same_order_def weibo_new_statuses_def
      prepare_weibo_feed_def sorted_reverse_def status_at_def youku_new_videos_def
      prepare_youku_feed_def video_titled_def init_context_def)

text \<open>
  Claim C8, amended. Across the successive calls of one loop, from any context, no item
  is new twice. For weibo and bilibili: when every item of a call has a timestamp at most
  the clock reading of that call and the clock readings of the successive calls never
  decrease, every new item of a later call has a greater timestamp than every new item of
  an earlier call, so the two calls have no new item in common. For youku: when every
  fetched list starts with the videos whose titles were not fetched before and the first
  video with a title fetched before carries the title at the head of the last list that
  was not empty (\<open>head_stays\<close>), the new videos of an earlier and of a later call have no
  title in common, so no video in common.
\<close>

theorem no_item_notified_twice:
  "(stamped_in_time ws_timestamp wcalls \<and> sorted (map fst wcalls) \<longrightarrow>
      (\<forall>i j. i < j \<and> j < length wcalls \<longrightarrow>
         (\<forall>x \<in> set (weibo_new_items render_w ctx wcalls ! i).
            \<forall>y \<in> set (weibo_new_items render_w ctx wcalls ! j).
              ws_timestamp x < ws_timestamp y)
         \<and> set (weibo_new_items render_w ctx wcalls ! i)
             \<inter> set (weibo_new_items render_w ctx wcalls ! j) = {}))
   \<and> (stamped_in_time bs_timestamp bcalls \<and> sorted (map fst bcalls) \<longrightarrow>
      (\<forall>i j. i < j \<and> j < length bcalls \<longrightarrow>
         (\<forall>x \<in> set (bilibili_new_items render_b ctx bcalls ! i).
            \<forall>y \<in> set (bilibili_new_items render_b ctx bcalls ! j).
              bs_timestamp x < bs_timestamp y)
         \<and> set (bilibili_new_items render_b ctx bcalls ! i)
             \<inter> set (bilibili_new_items render_b ctx bcalls ! j) = {}))
   \<and> (head_stays [] [] ycalls \<longrightarrow>
      (\<forall>i j. i < j \<and> j < length ycalls \<longrightarrow>
         yv_title ` set (youku_new_items render_y ctx ycalls ! i)
           \<inter> yv_title ` set (youku_new_items render_y ctx ycalls ! j) = {}
         \<and> set (youku_new_items render_y ctx ycalls ! i)
             \<inter> set (youku_new_items render_y ctx ycalls ! j) = {}))"
proof (intro conjI impI allI)
  fix i j
  assume h: "stamped_in_time ws_timestamp wcalls \<and> sorted (map fst wcalls)"
    and ij: "i < j \<and> j < length wcalls"
  from h ij weibo_no_renotify[of wcalls render_w ctx]
  show newer: "\<forall>x \<in> set (weibo_new_items render_w ctx wcalls ! i).
      \<forall>y \<in> set (weibo_new_items render_w ctx wcalls ! j). ws_timestamp x < ws_timestamp y"
    by blast
  then show "set (weibo_new_items render_w ctx wcalls ! i)
      \<inter> set (weibo_new_items render_w ctx wcalls ! j) = {}"
    by fastforce
next
  fix i j
  assume h: "stamped_in_time bs_timestamp bcalls \<and> sorted (map fst bcalls)"
    and ij: "i < j \<and> j < length bcalls"
  from h ij bilibili_no_renotify[of bcalls render_b ctx]
  show newer: "\<forall>x \<in> set (bilibili_new_items render_b ctx bcalls ! i).
      \<forall>y \<in> set (bilibili_new_items render_b ctx bcalls ! j). bs_timestamp x < bs_timestamp y"
    by blast
  then show "set (bilibili_new_items render_b ctx bcalls ! i)
      \<inter> set (bilibili_new_items render_b ctx bcalls ! j) = {}"
    by fastforce
next
  fix i j
  assume h: "head_stays [] [] ycalls" and ij: "i < j \<and> j < length ycalls"
  from h ij youku_no_renotify_inv[OF youku_inv_start, where ctx = ctx and calls = ycalls
      and render = render_y]
  show titles: "yv_title ` set (youku_new_items render_y ctx ycalls ! i)
      \<inter> yv_title ` set (youku_new_items render_y ctx ycalls ! j) = {}"
    by blast
  then show "set (youku_new_items render_y ctx ycalls ! i)
      \<inter> set (youku_new_items render_y ctx ycalls ! j) = {}"
    by blast
qed

theorem no_item_notified_twice_witness:
  "stamped_in_time ws_timestamp
      [(1000, [status_at 300, status_at 200]), (2000, [status_at 1500, status_at 300])]
   \<and> sorted (map fst
        [(1000::real, [status_at 300, status_at 200]), (2000, [status_at 1500, status_at 300])])
   \<and> weibo_new_items render_statuses init_context
        [(1000, [status_at 300, status_at 200]), (2000, [status_at 1500, status_at 300])]
       = [[status_at 300], [status_at 1500]]
   \<and> set [status_at 300] \<inter> set [status_at 1500] = {}
   \<and> stamped_in_time bs_timestamp
      [(1000, [submission_at 300]), (2000, [submission_at 1500, submission_at 300])]
   \<and> sorted (map fst
        [(1000::real, [submission_at 300]), (2000, [submission_at 1500, submission_at 300])])
   \<and> bilibili_new_items render_submissions init_context
        [(1000, [submission_at 300]), (2000, [submission_at 1500, submission_at 300])]
       = [[submission_at 300], [submission_at 1500]]
   \<and> set [submission_at 300] \<inter> set [submission_at 1500] = {}
   \<and> head_stays [] []
        [[video_titled ''k2'', video_titled ''k1''],
         [video_titled ''k4'', video_titled ''k3'', video_titled ''k2'']]
   \<and> youku_new_items render_videos init_context
        [[video_titled ''k2'', video_titled ''k1''],
         [video_titled ''k4'', video_titled ''k3'', video_titled ''k2'']]
       = [[video_titled ''k2''], [video_titled ''k4'', video_titled ''k3'']]
   \<and> yv_title ` set [video_titled ''k2'']
       \<inter> yv_title ` set [video_titled ''k4'', video_titled ''k3''] = {}"
proof -
  let ?wcalls = "[(1000::real, [status_at 300, status_at 200]),
    (2000, [status_at 1500, status_at 300])]"
  let ?bcalls = "[(1000::real, [submission_at 300]),
    (2000, [submission_at 1500, submission_at 300])]"
  let ?ycalls = "[[video_titled ''k2'', video_titled ''k1''],
         [video_titled ''k4'', video_titled ''k3'', video_titled ''k2'']]"
  have w: "stamped_in_time ws_timestamp ?wcalls \<and> sorted (map fst ?wcalls)"
    by (simp add: stamped_in_time_def status_at_def)
  have b: "stamped_in_time bs_timestamp ?bcalls \<and> sorted (map fst ?bcalls)"
    by (simp add: stamped_in_time_def submission_at_def)
  have y: "head_stays [] [] ?ycalls"
    by (simp add: video_titled_def)
  have wt: "weibo_new_items render_statuses init_context ?wcalls
       = [[status_at 300], [status_at 1500]]"
    by (simp add: weibo_new_statuses_def prepare_weibo_feed_def sorted_reverse_def
        status_at_def init_context_def)
  have bt: "bilibili_new_items render_submissions init_context ?bcalls
       = [[submission_at 300], [submission_at 1500]]"
    by (simp add: bilibili_new_submissions_def prepare_bilibili_feed_def sorted_reverse_def
        submission_at_def init_context_def)
  have yt: "youku_new_items render_videos init_context ?ycalls
       = [[video_titled ''k2''], [video_titled ''k4'', video_titled ''k3'']]"
    by (simp add: youku_new_videos_def prepare_youku_feed_def video_titled_def init_context_def)
  note claim = no_item_notified_twice [where ctx = init_context
      and wcalls = ?wcalls and render_w = render_statuses
      and bcalls = ?bcalls and render_b = render_submissions
      and ycalls = ?ycalls and render_y = render_videos]
  have "set (weibo_new_items render_statuses init_context ?wcalls ! 0)
      \<inter> set (weibo_new_items render_statuses init_context ?wcalls ! 1) = {}"
    by (rule claim[THEN conjunct1, rule_format, OF w, THEN conjunct2]) simp
  then have w2: "set [status_at 300] \<inter> set [status_at 1500] = {}"
    unfolding wt by simp
  have "set (bilibili_new_items render_submissions init_context ?bcalls ! 0)
      \<inter> set (bilibili_new_items render_submissions init_context ?bcalls ! 1) = {}"
    by (rule claim[THEN conjunct2, THEN conjunct1, rule_format, OF b, THEN conjunct2]) simp
  then have b2: "set [submission_at 300] \<inter> set [submission_at 1500] = {}"
    unfolding bt by simp
  have "yv_title ` set (youku_new_items render_videos init_context ?ycalls ! 0)
      \<inter> yv_title ` set (youku_new_items render_videos init_context ?ycalls ! 1) = {}"
    by (rule claim[THEN conjunct2, THEN conjunct2, rule_format, OF y, THEN conjunct1]) simp
  then have y2: "yv_title ` set [video_titled ''k2'']
       \<inter> yv_title ` set [video_titled ''k4'', video_titled ''k3''] = {}"
    unfolding yt by simp
  from w wt w2 b bt b2 y yt y2 show ?thesis by blast
qed

section \<open>Every loop has its own markers\<close>

lemma start_pairs:
  "start sources config ctx = Inr tasks \<Longrightarrow>
     map (\<lambda>t. (task_source t, task_id t)) tasks
       = concat (map (\<lambda>s. map (Pair s) (the (config s))) sources)
     \<and> (\<forall>t \<in> set tasks. task_context t = ctx)"
proof (induction sources arbitrary: tasks)
  case Nil
  then show ?case by simp
next
  case (Cons s sources)
  then show ?case
    by (auto simp: copy_context_def comp_def split: option.splits sum.splits)
qed

lemma weibo_cycle_world_free:
  "map_sum id fst (weibo_cycle parse render inp (ctx, w))
     = map_sum id fst (weibo_cycle parse render inp (ctx, w0))"
  by (simp add: weibo_cycle_def fetch_weibo_statuses_def push_def case_prod_beta
      split: sum.splits option.splits)

lemma bilibili_cycle_world_free:
  "map_sum id fst (bilibili_cycle parse render inp (ctx, w))
     = map_sum id fst (bilibili_cycle parse render inp (ctx, w0))"
  by (simp add: bilibili_cycle_def fetch_bilibili_upunuxi_submissions_def push_def case_prod_beta
      split: sum.splits option.splits)

lemma youku_cycle_world_free:
  "map_sum id fst (youku_cycle parse render inp (ctx, w))
     = map_sum id fst (youku_cycle parse render inp (ctx, w0))"
  by (simp add: youku_cycle_def fetch_youku_videos_def push_def case_prod_beta
      split: sum.splits option.splits)

lemma task_cycle_world_free:
  "map_sum id fst (task_cycle ext src inp (ctx, w))
     = map_sum id fst (task_cycle ext src inp (ctx, w0))"
  by (cases src)
    (simp_all add: task_cycle_def weibo_cycle_world_free[of _ _ _ _ w w0]
      bilibili_cycle_world_free[of _ _ _ _ w w0] youku_cycle_world_free[of _ _ _ _ w w0])

lemma task_cycle_context:
  assumes "task_cycle ext src inp (ctx, w) = Inr (ctx', w')"
  shows "\<exists>w0'. task_cycle ext src inp (ctx, w0) = Inr (ctx', w0')"
proof -
  from assms task_cycle_world_free[of ext src inp ctx w w0]
  have "map_sum id fst (task_cycle ext src inp (ctx, w0)) = Inr ctx'" by simp
  then show ?thesis by (cases "task_cycle ext src inp (ctx, w0)") auto
qed

lemma run_cycles_world_free:
  "map_sum id fst (run_cycles (task_cycle ext src) inps (ctx, w))
     = map_sum id fst (run_cycles (task_cycle ext src) inps (ctx, w0))"
proof (induction inps arbitrary: ctx w w0)
  case Nil
  then show ?case by simp
next
  case (Cons inp inps)
  show ?case
  proof (cases "task_cycle ext src inp (ctx, w)")
    case (Inl e)
    with task_cycle_world_free[of ext src inp ctx w w0]
    have "task_cycle ext src inp (ctx, w0) = Inl e"
      by (cases "task_cycle ext src inp (ctx, w0)") auto
    with Inl show ?thesis by simp
  next
    case (Inr s)
    obtain ctx' w' where s: "s = (ctx', w')" by (cases s)
    from task_cycle_context[of ext src inp ctx w ctx' w' w0] Inr s
    obtain w0' where "task_cycle ext src inp (ctx, w0) = Inr (ctx', w0')" by auto
    with Inr s Cons.IH[of ctx' w' w0'] show ?thesis by simp
  qed
qed

lemma gather_frame:
  assumes "gather ext schedule (tasks, w) = Inr (tasks', w')"
  shows "length tasks' = length tasks
    \<and> (\<forall>k < length tasks.
          task_source (tasks' ! k) = task_source (tasks ! k)
          \<and> task_id (tasks' ! k) = task_id (tasks ! k)
          \<and> map_sum id fst (run_cycles (task_cycle ext (task_source (tasks ! k)))
                (own_cycles k schedule) (task_context (tasks ! k), w0))
              = Inr (task_context (tasks' ! k)))"
  using assms
proof (induction schedule arbitrary: tasks w)
  case Nil
  then show ?case by (simp add: own_cycles_def)
next
  case (Cons step schedule)
  obtain n inp where step: "step = (n, inp)" by (cases step)
  show ?case
  proof (cases "n < length tasks")
    case False
    with Cons.prems step have g: "gather ext schedule (tasks, w) = Inr (tasks', w')" by simp
    have "own_cycles k (step # schedule) = own_cycles k schedule" if "k < length tasks" for k
      using that False step by (auto simp: own_cycles_def)
    with Cons.IH[OF g] show ?thesis by simp
  next
    case True
    let ?src = "task_source (tasks ! n)"
    let ?ctx = "task_context (tasks ! n)"
    from Cons.prems step True obtain ctx1 w1 where
      c: "task_cycle ext ?src inp (?ctx, w) = Inr (ctx1, w1)"
      and g: "gather ext schedule (tasks[n := (tasks ! n)\<lparr>task_context := ctx1\<rparr>], w1)
            = Inr (tasks', w')"
      by (auto split: sum.splits)
    let ?tasks1 = "tasks[n := (tasks ! n)\<lparr>task_context := ctx1\<rparr>]"
    note IH = Cons.IH[OF g]
    from IH have len: "length tasks' = length tasks" by simp
    have "task_source (tasks' ! k) = task_source (tasks ! k)
          \<and> task_id (tasks' ! k) = task_id (tasks ! k)
          \<and> map_sum id fst (run_cycles (task_cycle ext (task_source (tasks ! k)))
                (own_cycles k (step # schedule)) (task_context (tasks ! k), w0))
              = Inr (task_context (tasks' ! k))" if k: "k < length tasks" for k
    proof (cases "k = n")
      case False
      from k have "k < length ?tasks1" by simp
      note ihk = IH[THEN conjunct2, rule_format, OF this]
      from False k have same: "?tasks1 ! k = tasks ! k" by simp
      from False step have "own_cycles k (step # schedule) = own_cycles k schedule"
        by (simp add: own_cycles_def)
      with ihk show ?thesis unfolding same by simp
    next
      case True
      from k have "k < length ?tasks1" by simp
      note ihk = IH[THEN conjunct2, rule_format, OF this]
      from True k have upd: "?tasks1 ! k = (tasks ! n)\<lparr>task_context := ctx1\<rparr>" by simp
      from True step have own: "own_cycles k (step # schedule) = inp # own_cycles k schedule"
        by (simp add: own_cycles_def)
      from task_cycle_context[OF c, of w0] obtain w0' where
        c0: "task_cycle ext ?src inp (?ctx, w0) = Inr (ctx1, w0')" by blast
      from ihk have
        "map_sum id fst (run_cycles (task_cycle ext ?src) (own_cycles k schedule) (ctx1, w0))
           = Inr (task_context (tasks' ! k))"
        and "task_source (tasks' ! k) = ?src" and "task_id (tasks' ! k) = task_id (tasks ! n)"
        unfolding upd by simp_all
      with run_cycles_world_free[of ext ?src "own_cycles k schedule" ctx1 w0' w0] c0 own True
      show ?thesis by simp
    qed
    with len show ?thesis by blast
  qed
qed

text \<open>
  Claim C3. The runner makes one task per source and identity of the configuration, in
  order, each with its own copy of the context. Under any schedule of the gathered tasks
  that does not end in an exception, every task keeps its source and identity, and the
  context of task \<open>k\<close> at the end is the context that task \<open>k\<close> reaches when it runs its
  own iterations alone, from its own initial context and any world \<open>w0\<close>: what the other
  tasks read and write never is the marker of task \<open>k\<close>.
\<close>

theorem loops_own_their_markers:
  "(start sources config ctx = Inr tasks \<longrightarrow>
      map (\<lambda>t. (task_source t, task_id t)) tasks
        = concat (map (\<lambda>s. map (Pair s) (the (config s))) sources)
      \<and> (\<forall>t \<in> set tasks. task_context t = ctx))
   \<and> (gather ext schedule (tasks, w) = Inr (tasks', w') \<longrightarrow>
      length tasks' = length tasks
      \<and> (\<forall>k < length tasks.
            task_source (tasks' ! k) = task_source (tasks ! k)
            \<and> task_id (tasks' ! k) = task_id (tasks ! k)
            \<and> map_sum id fst (run_cycles (task_cycle ext (task_source (tasks ! k)))
                  (own_cycles k schedule) (task_context (tasks ! k), w0))
                = Inr (task_context (tasks' ! k))))"
  using start_pairs[of sources config ctx tasks] gather_frame[of ext schedule tasks w tasks' w' w0]
  by blast

theorem loops_own_their_markers_witness:
  "start [Weibo] [Weibo \<mapsto> [''uid1'', ''uid2'']] init_context
     = Inr [\<lparr>task_source = Weibo, task_id = ''uid1'', task_context = init_context\<rparr>,
            \<lparr>task_source = Weibo, task_id = ''uid2'', task_context = init_context\<rparr>]
   \<and> (\<exists>w'. gather sample_collaborators
          [(0, \<lparr>fetched = Inr [status_at 300], now = 1000, posted = None\<rparr>),
           (1, \<lparr>fetched = Inr [status_at 200], now = 1100, posted = None\<rparr>)]
          ([\<lparr>task_source = Weibo, task_id = ''uid1'', task_context = init_context\<rparr>,
            \<lparr>task_source = Weibo, task_id = ''uid2'', task_context = init_context\<rparr>], init_world)
        = Inr ([\<lparr>task_source = Weibo, task_id = ''uid1'',
                  task_context = init_context\<lparr>weibo_marker := Some 1000\<rparr>\<rparr>,
                \<lparr>task_source = Weibo, task_id = ''uid2'',
                  task_context = init_context\<lparr>weibo_marker := Some 1100\<rparr>\<rparr>], w')
        \<and> pushed w' = [(Weibo, render_statuses [status_at 300]),
                        (Weibo, render_statuses [status_at 200])])
   \<and> map_sum id fst (run_cycles (task_cycle sample_collaborators Weibo)
        [\<lparr>fetched = Inr [status_at 200], now = 1100, posted = None\<rparr>] (init_context, init_world))
       = Inr (init_context\<lparr>weibo_marker := Some 1100\<rparr>)"
proof -
  let ?t1 = "\<lparr>task_source = Weibo, task_id = ''uid1'', task_context = init_context\<rparr>"
  let ?t2 = "\<lparr>task_source = Weibo, task_id = ''uid2'', task_context = init_context\<rparr>"
  let ?schedule = "[(0::nat, \<lparr>fetched = Inr [status_at 300], now = 1000, posted = None\<rparr>),
           (1, \<lparr>fetched = Inr [status_at 200], now = 1100, posted = None\<rparr>)]"
  let ?tasks' = "[\<lparr>task_source = Weibo, task_id = ''uid1'',
                  task_context = init_context\<lparr>weibo_marker := Some 1000\<rparr>\<rparr>,
                \<lparr>task_source = Weibo, task_id = ''uid2'',
                  task_context = init_context\<lparr>weibo_marker := Some 1100\<rparr>\<rparr>]"
  have s: "start [Weibo] [Weibo \<mapsto> [''uid1'', ''uid2'']] init_context = Inr [?t1, ?t2]"
    by (simp add: copy_context_def)
  have g: "\<exists>w'. gather sample_collaborators ?schedule ([?t1, ?t2], init_world) = Inr (?tasks', w')
      \<and> pushed w' = [(Weibo, render_statuses [status_at 300]),
                        (Weibo, render_statuses [status_at 200])]"
    by (simp add: task_cycle_def sample_collaborators_def weibo_cycle_def
        fetch_weibo_statuses_def prepare_weibo_feed_def weibo_new_statuses_def sorted_reverse_def
        push_def render_statuses_def status_at_def pushed_reportable_sleep init_world_def
        init_context_def)
  then obtain w' where
    g': "gather sample_collaborators ?schedule ([?t1, ?t2], init_world) = Inr (?tasks', w')"
    by blast
  note claim = loops_own_their_markers [where sources = "[Weibo]"
      and config = "[Weibo \<mapsto> [''uid1'', ''uid2'']]" and ctx = init_context
      and tasks = "[?t1, ?t2]" and ext = sample_collaborators and schedule = ?schedule
      and w = init_world and tasks' = ?tasks' and w' = w' and ?w0.0 = init_world]
  have "map_sum id fst (run_cycles (task_cycle sample_collaborators (task_source ([?t1, ?t2] ! 1)))
          (own_cycles 1 ?schedule) (task_context ([?t1, ?t2] ! 1), init_world))
        = Inr (task_context (?tasks' ! 1))"
    by (rule claim[THEN conjunct2, rule_format, OF g', THEN conjunct2, rule_format,
          THEN conjunct2, THEN conjunct2]) simp
  then have "map_sum id fst (run_cycles (task_cycle sample_collaborators Weibo)
        [\<lparr>fetched = Inr [status_at 200], now = 1100, posted = None\<rparr>] (init_context, init_world))
       = Inr (init_context\<lparr>weibo_marker := Some 1100\<rparr>)"
    by (simp add: own_cycles_def)
  with s g show ?thesis by blast
qed

end
